theory Spec2Isabelle
  imports Main "HOL-Library.Sublist"
begin

section \<open>Strings\<close>

text \<open>
  A Python \<open>str\<close> is modelled as a \<open>string\<close>; each \<open>char\<close> stands for the code point
  of the same number (0 to 255). On these code points the white space of
  \<open>str.split()\<close> and \<open>str.strip()\<close> is the set below, and the only digits that the
  pattern \<open>\d\<close> and the \<open>Decimal\<close> constructor know are \<open>0\<close> to \<open>9\<close>.
\<close>

definition is_space :: "char \<Rightarrow> bool" where
  "is_space c \<longleftrightarrow>
     c \<in> set [CHR 0x09, CHR 0x0A, CHR 0x0B, CHR 0x0C, CHR 0x0D,
              CHR 0x1C, CHR 0x1D, CHR 0x1E, CHR 0x1F, CHR 0x20, CHR 0x85, CHR 0xA0]"

definition is_digit :: "char \<Rightarrow> bool" where
  "is_digit c \<longleftrightarrow> c \<in> set ''0123456789''"

definition digit_value :: "char \<Rightarrow> nat" where
  "digit_value c = of_char c - 48"

definition int_of_digits :: "string \<Rightarrow> nat" where
  \<comment> \<open>\<open>int(s)\<close> on a string of digits\<close>
  "int_of_digits ds = foldl (\<lambda>n c. 10 * n + digit_value c) 0 ds"

definition strip :: "string \<Rightarrow> string" where
  \<comment> \<open>\<open>s.strip()\<close>\<close>
  "strip s = dropWhile is_space (rev (dropWhile is_space (rev s)))"

fun split_from :: "string \<Rightarrow> string \<Rightarrow> string list" where
  "split_from cur [] = (if cur = [] then [] else [cur])"
| "split_from cur (c # cs) =
     (if is_space c then (if cur = [] then split_from [] cs else cur # split_from [] cs)
      else split_from (cur @ [c]) cs)"

definition split :: "string \<Rightarrow> string list" where
  \<comment> \<open>\<open>s.split()\<close>: the maximal runs of characters that are not white space\<close>
  "split s = split_from [] s"

fun split_on :: "char \<Rightarrow> string \<Rightarrow> string list" where
  \<comment> \<open>\<open>s.split(sep)\<close> for a separator of one character\<close>
  "split_on sep [] = [[]]"
| "split_on sep (c # cs) =
     (if c = sep then [] # split_on sep cs
      else (case split_on sep cs of [] \<Rightarrow> [[c]] | l # ls \<Rightarrow> (c # l) # ls))"

definition replace_by_empty :: "char \<Rightarrow> string \<Rightarrow> string" where
  \<comment> \<open>\<open>s.replace(ch, '')\<close>\<close>
  "replace_by_empty ch s = filter (\<lambda>c. c \<noteq> ch) s"

definition join :: "string \<Rightarrow> string list \<Rightarrow> string" where
  \<comment> \<open>\<open>sep.join(xs)\<close>\<close>
  "join sep xs = (case xs of [] \<Rightarrow> [] | y # ys \<Rightarrow> y @ concat (map (\<lambda>z. sep @ z) ys))"

definition slice :: "'a list \<Rightarrow> int \<Rightarrow> int \<Rightarrow> 'a list" where
  \<comment> \<open>\<open>xs[a:b]\<close> with Python's reading of negative and of too large bounds\<close>
  "slice xs a b =
     (let n = int (length xs);
          lo = (if a < 0 then max 0 (n + a) else min a n);
          hi = (if b < 0 then max 0 (n + b) else min b n)
      in drop (nat lo) (take (nat hi) xs))"

definition lower :: "char \<Rightarrow> char" where
  "lower c = (case map_of (zip ''ABCDEFGHIJKLMNOPQRSTUVWXYZ'' ''abcdefghijklmnopqrstuvwxyz'') c of
                None \<Rightarrow> c | Some l \<Rightarrow> l)"

function str_nat :: "nat \<Rightarrow> string" where
  \<comment> \<open>\<open>str(n)\<close> for \<open>n \<ge> 0\<close>\<close>
  "str_nat n = (if n < 10 then [''0123456789'' ! n]
                else str_nat (n div 10) @ [''0123456789'' ! (n mod 10)])"
  by pat_completeness auto
termination
  by (relation "measure id") auto

declare str_nat.simps [simp del]

definition format_signed :: "int \<Rightarrow> string" where
  \<comment> \<open>\<open>"%+d" % n\<close>\<close>
  "format_signed n = (if n < 0 then CHR ''-'' # str_nat (nat (- n)) else CHR ''+'' # str_nat (nat n))"

section \<open>The decimal library\<close>

text \<open>
  The values of Python's \<open>decimal.Decimal\<close>: a finite number has a sign, a coefficient
  and an exponent and stands for \<open>\<plusminus> coefficient * 10 ^ exponent\<close>; the special values
  are the two infinities and the quiet and signalling NaNs with their payload.
  The operations below are those the program calls, under the default context of the
  library: precision 28, rounding half-even, \<open>Emax = 999999\<close>, \<open>Emin = -999999\<close>, with
  the traps \<open>InvalidOperation\<close>, \<open>DivisionByZero\<close> and \<open>Overflow\<close> enabled. A trapped
  signal is an exception, the value \<open>Inl\<close> of the result.
\<close>

datatype decimal =
    Finite bool nat int   \<comment> \<open>sign (True: negative), coefficient, exponent\<close>
  | Infinity bool
  | NaN bool bool nat     \<comment> \<open>sign, signalling, payload\<close>

datatype dec_signal = InvalidOperation | Overflow

definition prec :: int where "prec = 28"
definition Emax :: int where "Emax = 999999"
definition Emin :: int where "Emin = - 999999"
definition Etiny :: int where "Etiny = Emin - prec + 1"
definition Etop :: int where "Etop = Emax - prec + 1"

definition MAX_EMAX :: int where "MAX_EMAX = 999999999999999999"
definition MIN_ETINY :: int where "MIN_ETINY = - 1999999999999999997"

definition is_nan :: "decimal \<Rightarrow> bool" where
  "is_nan d = (case d of NaN s sig p \<Rightarrow> True | _ \<Rightarrow> False)"

definition is_snan :: "decimal \<Rightarrow> bool" where
  "is_snan d = (case d of NaN s sig p \<Rightarrow> sig | _ \<Rightarrow> False)"

definition ndigits :: "nat \<Rightarrow> int" where
  \<comment> \<open>the number of digits of the coefficient, \<open>len(self._int)\<close>\<close>
  "ndigits c = int (length (str_nat c))"

subsection \<open>The constructor from a string\<close>

definition parse_exponent :: "string \<Rightarrow> int option" where
  \<comment> \<open>\<open>[-+]?\d+\<close> up to the end of the string\<close>
  "parse_exponent s =
     (let body = (case s of [] \<Rightarrow> [] | c # r \<Rightarrow> if c = CHR ''-'' \<or> c = CHR ''+'' then r else s)
      in if body \<noteq> [] \<and> list_all is_digit body
         then Some (case s of [] \<Rightarrow> 0
                    | c # r \<Rightarrow> if c = CHR ''-'' then - int (int_of_digits body)
                              else int (int_of_digits body))
         else None)"

definition parse_number :: "string \<Rightarrow> (nat \<times> int) option" where
  \<comment> \<open>digits with an optional point and an optional exponent, at least one digit:
      the coefficient and the exponent\<close>
  "parse_number s =
     (let intpart = takeWhile is_digit s;
          r1 = dropWhile is_digit s;
          has_point = (r1 \<noteq> [] \<and> hd r1 = CHR ''.'');
          fracpart = (if has_point then takeWhile is_digit (tl r1) else []);
          r2 = (if has_point then dropWhile is_digit (tl r1) else r1)
      in if intpart = [] \<and> fracpart = [] then None
         else (case (case r2 of [] \<Rightarrow> Some 0
                     | c # r \<Rightarrow> if c = CHR ''e'' \<or> c = CHR ''E'' then parse_exponent r else None) of
                 None \<Rightarrow> None
               | Some e \<Rightarrow> Some (int_of_digits (intpart @ fracpart), e - int (length fracpart))))"

definition parse_infinity :: "string \<Rightarrow> bool" where
  "parse_infinity s \<longleftrightarrow> map lower s = ''inf'' \<or> map lower s = ''infinity''"

definition parse_nan :: "string \<Rightarrow> (bool \<times> nat) option" where
  \<comment> \<open>an optional \<open>s\<close>, \<open>nan\<close>, and digits up to the end: signalling and the payload\<close>
  "parse_nan s =
     (let signal = (s \<noteq> [] \<and> lower (hd s) = CHR ''s'');
          r = (if signal then tl s else s)
      in if map lower (take 3 r) = ''nan'' \<and> list_all is_digit (drop 3 r)
         then Some (signal, int_of_digits (drop 3 r)) else None)"

definition in_range :: "nat \<Rightarrow> int \<Rightarrow> bool" where
  \<comment> \<open>what the constructor can represent exactly: the exponent limits of the
      library on a 64-bit machine (\<open>decimal.MAX_EMAX\<close>, \<open>decimal.MIN_ETINY\<close>)\<close>
  "in_range c e \<longleftrightarrow>
     MIN_ETINY \<le> e \<and> (if c = 0 then e \<le> MAX_EMAX else e + ndigits c - 1 \<le> MAX_EMAX)"

definition Decimal :: "string \<Rightarrow> dec_signal + decimal" where
  \<comment> \<open>\<open>Decimal(s)\<close>: surrounding white space and every underscore are dropped, then
      a sign and a number, an infinity or a NaN are read; anything else is the
      exception \<open>InvalidOperation\<close>\<close>
  "Decimal s =
     (let v = replace_by_empty (CHR ''_'') (strip s);
          signed = (v \<noteq> [] \<and> (hd v = CHR ''-'' \<or> hd v = CHR ''+''));
          sign = (v \<noteq> [] \<and> hd v = CHR ''-'');
          body = (if signed then tl v else v)
      in case parse_number body of
           Some (c, e) \<Rightarrow> if in_range c e then Inr (Finite sign c e) else Inl InvalidOperation
         | None \<Rightarrow>
             if parse_infinity body then Inr (Infinity sign)
             else (case parse_nan body of
                     Some (sig, p) \<Rightarrow> Inr (NaN sign sig p)
                   | None \<Rightarrow> Inl InvalidOperation))"

subsection \<open>The string of a value\<close>

definition decimal_str :: "decimal \<Rightarrow> string" where
  \<comment> \<open>\<open>str(d)\<close>, the scientific string of the library\<close>
  "decimal_str d =
     (case d of
        Infinity s \<Rightarrow> (if s then ''-'' else []) @ ''Infinity''
      | NaN s sig p \<Rightarrow>
          (if s then ''-'' else []) @ (if sig then ''sNaN'' else ''NaN'')
            @ (if p = 0 then [] else str_nat p)
      | Finite s c e \<Rightarrow>
          (let digits = str_nat c;
               len = int (length digits);
               leftdigits = e + len;
               dotplace = (if e \<le> 0 \<and> leftdigits > - 6 then leftdigits else 1);
               intpart = (if dotplace \<le> 0 then ''0''
                          else if dotplace \<ge> len
                          then digits @ replicate (nat (dotplace - len)) (CHR ''0'')
                          else take (nat dotplace) digits);
               fracpart = (if dotplace \<le> 0
                           then ''.'' @ replicate (nat (- dotplace)) (CHR ''0'') @ digits
                           else if dotplace \<ge> len then []
                           else ''.'' @ drop (nat dotplace) digits);
               exp = (if leftdigits = dotplace then []
                      else ''E'' @ format_signed (leftdigits - dotplace))
           in (if s then ''-'' else []) @ intpart @ fracpart @ exp))"

subsection \<open>Rounding to the context\<close>

definition round_half_even :: "nat \<Rightarrow> nat \<Rightarrow> nat" where
  \<comment> \<open>the coefficient \<open>c\<close> without its last \<open>k\<close> digits, rounded to nearest, ties to even\<close>
  "round_half_even c k =
     (let q = c div 10 ^ k; r = c mod 10 ^ k
      in if 2 * r > 10 ^ k \<or> (2 * r = 10 ^ k \<and> odd q) then q + 1 else q)"

definition dec_fix :: "decimal \<Rightarrow> dec_signal + decimal" where
  \<comment> \<open>\<open>d._fix(context)\<close>: a NaN keeps the last \<open>prec\<close> digits of its payload, a zero has
      its exponent clamped, a number with too many digits is rounded, and a result
      above \<open>Emax\<close> is the trapped signal \<open>Overflow\<close>\<close>
  "dec_fix d =
     (case d of
        NaN s sig p \<Rightarrow> Inr (NaN s sig (p mod 10 ^ nat prec))
      | Infinity s \<Rightarrow> Inr d
      | Finite s c e \<Rightarrow>
          if c = 0 then Inr (Finite s 0 (min (max e Etiny) Emax))
          else if ndigits c + e - prec > Etop then Inl Overflow
          else (let exp_min = max (ndigits c + e - prec) Etiny
                in if e < exp_min
                   then (let coeff = round_half_even c (nat (exp_min - e))
                         in if ndigits coeff > prec \<and> coeff \<noteq> 0
                            then (if exp_min + 1 > Etop then Inl Overflow
                                  else Inr (Finite s (coeff div 10) (exp_min + 1)))
                            else Inr (Finite s coeff exp_min))
                   else Inr d))"

subsection \<open>Comparison\<close>

definition signed_coeff :: "bool \<Rightarrow> nat \<Rightarrow> int" where
  "signed_coeff s c = (if s then - int c else int c)"

definition dec_cmp :: "decimal \<Rightarrow> decimal \<Rightarrow> int" where
  \<comment> \<open>\<open>a._cmp(b)\<close> for operands that are not NaN: -1, 0 or 1 as the value of \<open>a\<close> is
      below, equal to or above the value of \<open>b\<close>\<close>
  "dec_cmp a b =
     (case (a, b) of
        (Finite sa ca ea, Finite sb cb eb) \<Rightarrow>
          (let e = min ea eb;
               va = signed_coeff sa ca * 10 ^ nat (ea - e);
               vb = signed_coeff sb cb * 10 ^ nat (eb - e)
           in if va < vb then - 1 else if va = vb then 0 else 1)
      | _ \<Rightarrow>
          (let ia = (case a of Infinity s \<Rightarrow> if s then - 1 else 1 | _ \<Rightarrow> (0::int));
               ib = (case b of Infinity s \<Rightarrow> if s then - 1 else 1 | _ \<Rightarrow> (0::int))
           in if ia < ib then - 1 else if ia = ib then 0 else 1))"

definition dec_lt :: "decimal \<Rightarrow> decimal \<Rightarrow> dec_signal + bool" where
  \<comment> \<open>\<open>a < b\<close>: an ordering comparison with a NaN signals \<open>InvalidOperation\<close>\<close>
  "dec_lt a b = (if is_nan a \<or> is_nan b then Inl InvalidOperation else Inr (dec_cmp a b < 0))"

definition dec_gt :: "decimal \<Rightarrow> decimal \<Rightarrow> dec_signal + bool" where
  \<comment> \<open>\<open>a > b\<close>\<close>
  "dec_gt a b = (if is_nan a \<or> is_nan b then Inl InvalidOperation else Inr (dec_cmp a b > 0))"

subsection \<open>Subtraction and absolute value\<close>

definition check_nans :: "decimal \<Rightarrow> decimal \<Rightarrow> (dec_signal + decimal) option" where
  \<comment> \<open>\<open>a._check_nans(b, context)\<close>: a signalling NaN signals, a quiet one is the result\<close>
  "check_nans a b =
     (if is_snan a \<or> is_snan b then Some (Inl InvalidOperation)
      else if is_nan a then Some (dec_fix a)
      else if is_nan b then Some (dec_fix b)
      else None)"

definition copy_negate :: "decimal \<Rightarrow> decimal" where
  "copy_negate d =
     (case d of Finite s c e \<Rightarrow> Finite (\<not> s) c e | Infinity s \<Rightarrow> Infinity (\<not> s)
      | NaN s sig p \<Rightarrow> NaN (\<not> s) sig p)"

definition dec_add :: "decimal \<Rightarrow> decimal \<Rightarrow> dec_signal + decimal" where
  \<comment> \<open>\<open>a + b\<close>: the exact sum at the smaller exponent, rounded to the context\<close>
  "dec_add a b =
     (case check_nans a b of
        Some r \<Rightarrow> r
      | None \<Rightarrow>
          (case (a, b) of
             (Infinity sa, Infinity sb) \<Rightarrow> if sa \<noteq> sb then Inl InvalidOperation else Inr a
           | (Infinity sa, _) \<Rightarrow> Inr a
           | (_, Infinity sb) \<Rightarrow> Inr b
           | (Finite sa ca ea, Finite sb cb eb) \<Rightarrow>
               (let e = min ea eb;
                    total = signed_coeff sa ca * 10 ^ nat (ea - e)
                          + signed_coeff sb cb * 10 ^ nat (eb - e)
                in if ca = 0 \<and> cb = 0 then dec_fix (Finite (sa \<and> sb) 0 e)
                   else if total = 0 then dec_fix (Finite False 0 e)
                   else dec_fix (Finite (total < 0) (nat \<bar>total\<bar>) e))
           | _ \<Rightarrow> Inl InvalidOperation))"

definition dec_sub :: "decimal \<Rightarrow> decimal \<Rightarrow> dec_signal + decimal" where
  \<comment> \<open>\<open>a - b\<close>\<close>
  "dec_sub a b =
     (case check_nans a b of
        Some r \<Rightarrow> r
      | None \<Rightarrow> dec_add a (copy_negate b))"

definition dec_abs :: "decimal \<Rightarrow> dec_signal + decimal" where
  \<comment> \<open>\<open>abs(d)\<close>\<close>
  "dec_abs d =
     (case d of
        NaN s sig p \<Rightarrow> if sig then Inl InvalidOperation else dec_fix d
      | Infinity s \<Rightarrow> Inr (Infinity False)
      | Finite s c e \<Rightarrow> dec_fix (Finite False c e))"

section \<open>The tokenizer\<close>

definition is_numeric :: "string \<Rightarrow> bool" where
  \<comment> \<open>the conversion is tried on the cleaned string; \<open>InvalidOperation\<close> is caught\<close>
  "is_numeric v =
     (let cleaned_value = strip (replace_by_empty (CHR 0x27) (replace_by_empty (CHR '','') v))
      in if cleaned_value \<noteq> []
         then (case Decimal cleaned_value of Inr d \<Rightarrow> True | Inl e \<Rightarrow> False)
         else False)"

definition clean_amount :: "string \<Rightarrow> string" where
  "clean_amount v = strip (replace_by_empty (CHR '','') (replace_by_empty (CHR 0x27) v))"

definition date_shape :: "string \<Rightarrow> bool" where
  \<comment> \<open>two digits, a dot, two digits, a dot, two digits, and nothing else\<close>
  "date_shape s =
     (case s of
        [d1, d2, p1, m1, m2, p2, y1, y2] \<Rightarrow>
          is_digit d1 \<and> is_digit d2 \<and> p1 = CHR ''.'' \<and> is_digit m1 \<and> is_digit m2
          \<and> p2 = CHR ''.'' \<and> is_digit y1 \<and> is_digit y2
      | _ \<Rightarrow> False)"

definition is_date :: "string \<Rightarrow> bool" where
  \<comment> \<open>\<open>re.match\<close> of the date pattern: its \<open>$\<close> also matches before one final newline\<close>
  "is_date s \<longleftrightarrow>
     date_shape s \<or> (s \<noteq> [] \<and> last s = CHR 0x0A \<and> date_shape (butlast s))"

record parsed_fields =
  date :: string
  description :: string
  amount :: "string option"
  balance :: string

fun scan_balance :: "string list \<Rightarrow> nat \<Rightarrow> string list \<Rightarrow> string option \<times> int" where
  \<comment> \<open>the loop over \<open>enumerate(reversed(parts))\<close> from position \<open>i\<close> on: the balance
      and its index, \<open>(None, -1)\<close> when the loop ends without a break\<close>
  "scan_balance parts i [] = (None, - 1)"
| "scan_balance parts i (part # rest) =
     (if is_numeric part then (Some (clean_amount part), int (length parts) - 1 - int i)
      else scan_balance parts (Suc i) rest)"

fun scan_amount :: "string list \<Rightarrow> int list \<Rightarrow> string option \<times> int" where
  \<comment> \<open>the loop over the indices of \<open>range(balance_index - 1, 0, -1)\<close>\<close>
  "scan_amount parts [] = (None, - 1)"
| "scan_amount parts (i # rest) =
     (if i \<ge> int (length parts) then scan_amount parts rest
      else if is_numeric (parts ! nat i) then (Some (clean_amount (parts ! nat i)), i)
      else scan_amount parts rest)"

definition range_down :: "int \<Rightarrow> int list" where
  \<comment> \<open>\<open>range(b - 1, 0, -1)\<close>: the indices \<open>b - 1\<close>, \<open>b - 2\<close>, ..., \<open>1\<close>\<close>
  "range_down b = rev [1 .. b - 1]"

definition extract_transaction_data :: "string \<Rightarrow> parsed_fields option" where
  "extract_transaction_data line =
     (let parts = split line in
      if length parts < 3 then None
      else if \<not> is_date (parts ! 0) then None
      else (case scan_balance parts 0 (rev parts) of
              (None, balance_index) \<Rightarrow> None
            | (Some bal, balance_index) \<Rightarrow>
                if bal = [] then None
                else (case scan_amount parts (range_down balance_index) of
                        (amt, amount_index) \<Rightarrow>
                          (let description_parts =
                                 (if amount_index > 0 then slice parts 1 amount_index
                                  else slice parts 1 balance_index)
                           in Some \<lparr> date = parts ! 0,
                                     description = strip (join '' '' description_parts),
                                     amount = amt,
                                     balance = bal \<rparr>))))"

section \<open>The parser\<close>

record transaction =
  Date :: string
  Description :: string
  Debit :: string
  Credit :: string
  Balance :: string

text \<open>
  The body of the \<open>try\<close> for one line. \<open>Inl\<close> is an exception raised inside it (every
  one is caught by \<open>except Exception\<close>: the line is logged and skipped), \<open>Inr None\<close> is
  the \<open>continue\<close> of a line that is no transaction, \<open>Inr (Some (t, b))\<close> is the record
  that is appended and the new previous balance.
\<close>

definition process_line :: "decimal option \<Rightarrow> string \<Rightarrow> dec_signal + (transaction \<times> decimal) option" where
  "process_line prev_balance line =
     (case extract_transaction_data line of
        None \<Rightarrow> Inr None
      | Some transaction_data \<Rightarrow>
          (case Decimal (balance transaction_data) of
             Inl e \<Rightarrow> Inl e
           | Inr current_balance \<Rightarrow>
               (case (case amount transaction_data of
                        None \<Rightarrow> Inr None
                      | Some a \<Rightarrow> if a = [] then Inr None
                                  else (case Decimal a of Inl e \<Rightarrow> Inl e | Inr d \<Rightarrow> Inr (Some d))) of
                  Inl e \<Rightarrow> Inl e
                | Inr amt \<Rightarrow>
                    (case (case (prev_balance, amt) of
                             (Some p, Some a) \<Rightarrow>
                               (case dec_gt current_balance p of
                                  Inl e \<Rightarrow> Inl e
                                | Inr gt \<Rightarrow> if gt then Inr ([], decimal_str a)
                                            else Inr (decimal_str a, []))
                           | _ \<Rightarrow> Inr ([], [])) of
                       Inl e \<Rightarrow> Inl e
                     | Inr (debit, credit) \<Rightarrow>
                         Inr (Some (\<lparr> Date = date transaction_data,
                                       Description = description transaction_data,
                                       Debit = debit,
                                       Credit = credit,
                                       Balance = balance transaction_data \<rparr>,
                                    current_balance))))))"

type_synonym parse_state = "transaction list \<times> decimal option"

definition parse_line :: "parse_state \<Rightarrow> string \<Rightarrow> parse_state" where
  \<comment> \<open>one iteration of the loop over the lines: the state is \<open>transactions\<close> and
      \<open>prev_balance\<close>\<close>
  "parse_line st line =
     (case process_line (snd st) line of
        Inl e \<Rightarrow> st
      | Inr None \<Rightarrow> st
      | Inr (Some (t, current_balance)) \<Rightarrow> (fst st @ [t], Some current_balance))"

definition parse_page :: "parse_state \<Rightarrow> string option \<Rightarrow> parse_state" where
  \<comment> \<open>one iteration of the loop over the pages; a page is the result of
      \<open>extract_text()\<close>, and a page without text is skipped\<close>
  "parse_page st page =
     (case page of
        None \<Rightarrow> st
      | Some txt \<Rightarrow> if txt = [] then st else foldl parse_line st (split_on (CHR 0x0A) txt))"

datatype pdf_file = NoSuchFile | Pdf "string option list"

datatype parse_error = FileNotFoundError | ValueError

definition parse_pdf :: "pdf_file \<Rightarrow> parse_error + transaction list" where
  "parse_pdf f =
     (case f of
        NoSuchFile \<Rightarrow> Inl FileNotFoundError
      | Pdf pages \<Rightarrow>
          if pages = [] then Inl ValueError
          else Inr (fst (foldl parse_page ([], None) pages)))"

section \<open>The validator\<close>

text \<open>
  The body of the \<open>try\<close> for one record, with the same reading of the result as for
  \<open>process_line\<close>. Here only \<open>InvalidOperation\<close> is caught; \<open>Overflow\<close>, which the
  subtraction can signal, leaves the function. A key that is missing from the dictionary
  reads as the empty string through \<open>get\<close>, so a record holds the empty string for it.
\<close>

definition validate_record :: "decimal option \<Rightarrow> transaction \<Rightarrow> dec_signal + (transaction \<times> decimal) option" where
  "validate_record prev_balance t =
     (let dat = strip (Date t);
          descr = strip (Description t);
          bal = strip (Balance t)
      in if dat = [] \<or> descr = [] \<or> bal = [] then Inr None
         else (case Decimal bal of
                 Inl e \<Rightarrow> Inl e
               | Inr current_balance \<Rightarrow>
                   (let debit = strip (Debit t);
                        credit = strip (Credit t)
                    in case (case prev_balance of
                               None \<Rightarrow> Inr (debit, credit)
                             | Some p \<Rightarrow>
                                 (case dec_sub current_balance p of
                                    Inl e \<Rightarrow> Inl e
                                  | Inr d \<Rightarrow>
                                      (case dec_abs d of
                                         Inl e \<Rightarrow> Inl e
                                       | Inr balance_diff \<Rightarrow>
                                           if debit = [] \<and> credit = []
                                           then (case dec_lt current_balance p of
                                                   Inl e \<Rightarrow> Inl e
                                                 | Inr lt \<Rightarrow>
                                                     if lt then Inr (decimal_str balance_diff, [])
                                                     else (case dec_gt current_balance p of
                                                             Inl e \<Rightarrow> Inl e
                                                           | Inr gt \<Rightarrow>
                                                               if gt then Inr ([], decimal_str balance_diff)
                                                               else Inr (debit, credit)))
                                           else Inr (debit, credit)))) of
                         Inl e \<Rightarrow> Inl e
                       | Inr (debit', credit') \<Rightarrow>
                           Inr (Some (\<lparr> Date = dat, Description = descr, Debit = debit',
                                         Credit = credit', Balance = bal \<rparr>,
                                      current_balance)))))"

type_synonym validate_state = "transaction list \<times> decimal option"

definition validate_step :: "validate_state \<Rightarrow> transaction \<Rightarrow> dec_signal + validate_state" where
  \<comment> \<open>one iteration of the loop: the state is \<open>validated_transactions\<close> and
      \<open>prev_balance\<close>\<close>
  "validate_step st t =
     (case validate_record (snd st) t of
        Inl InvalidOperation \<Rightarrow> Inr st
      | Inl Overflow \<Rightarrow> Inl Overflow
      | Inr None \<Rightarrow> Inr st
      | Inr (Some (r, current_balance)) \<Rightarrow> Inr (fst st @ [r], Some current_balance))"

fun validate_loop :: "validate_state \<Rightarrow> transaction list \<Rightarrow> dec_signal + validate_state" where
  "validate_loop st [] = Inr st"
| "validate_loop st (t # ts) =
     (case validate_step st t of Inl e \<Rightarrow> Inl e | Inr st' \<Rightarrow> validate_loop st' ts)"

definition validate_transactions :: "transaction list \<Rightarrow> dec_signal + transaction list" where
  "validate_transactions transactions =
     (case validate_loop ([], None) transactions of Inl e \<Rightarrow> Inl e | Inr st \<Rightarrow> Inr (fst st))"

section \<open>Notions used in the statements\<close>

definition emitted :: "parsed_fields \<Rightarrow> string \<Rightarrow> string \<Rightarrow> transaction" where
  \<comment> \<open>the record that the parser builds from the fields of a line and the two strings\<close>
  "emitted td debit credit =
     \<lparr> Date = date td, Description = description td, Debit = debit, Credit = credit,
       Balance = balance td \<rparr>"

definition repaired :: "transaction \<Rightarrow> string \<Rightarrow> string \<Rightarrow> transaction" where
  \<comment> \<open>the record that the validator builds from an input record and the two strings\<close>
  "repaired t debit credit =
     \<lparr> Date = strip (Date t), Description = strip (Description t), Debit = debit,
       Credit = credit, Balance = strip (Balance t) \<rparr>"

fun validated_from :: "decimal option \<Rightarrow> transaction list \<Rightarrow> dec_signal + transaction list" where
  \<comment> \<open>the records that the loop of the validator appends, started with a previous balance\<close>
  "validated_from prev [] = Inr []"
| "validated_from prev (t # ts) =
     (case validate_record prev t of
        Inl InvalidOperation \<Rightarrow> validated_from prev ts
      | Inl Overflow \<Rightarrow> Inl Overflow
      | Inr None \<Rightarrow> validated_from prev ts
      | Inr (Some (r, cur)) \<Rightarrow>
          (case validated_from (Some cur) ts of Inl e \<Rightarrow> Inl e | Inr out \<Rightarrow> Inr (r # out)))"

definition page_lines :: "string option \<Rightarrow> string list" where
  \<comment> \<open>the lines of a page, none for a page without text\<close>
  "page_lines page =
     (case page of None \<Rightarrow> [] | Some txt \<Rightarrow> if txt = [] then [] else split_on (CHR 0x0A) txt)"

definition all_lines :: "string option list \<Rightarrow> string list" where
  \<comment> \<open>the lines of a document in document order: page after page, line after line\<close>
  "all_lines pages = concat (map page_lines pages)"

definition from_line :: "transaction \<Rightarrow> string \<Rightarrow> bool" where
  \<comment> \<open>the record carries the date, description and balance that the tokenizer reads
      from the line\<close>
  "from_line r l =
     (case extract_transaction_data l of
        None \<Rightarrow> False
      | Some td \<Rightarrow> Date r = date td \<and> Description r = description td \<and> Balance r = balance td)"

definition kept_from :: "transaction \<Rightarrow> transaction \<Rightarrow> bool" where
  \<comment> \<open>the output record carries the trimmed date, description and balance of the input
      record\<close>
  "kept_from r t \<longleftrightarrow>
     Date r = strip (Date t) \<and> Description r = strip (Description t)
     \<and> Balance r = strip (Balance t)"

definition one_sided :: "transaction \<Rightarrow> bool" where
  \<comment> \<open>at most one of Debit and Credit is a non-empty string\<close>
  "one_sided r \<longleftrightarrow> Debit r = [] \<or> Credit r = []"

definition tracks_last :: "validate_state \<Rightarrow> bool" where
  \<comment> \<open>the previous balance of the state is unknown while no record is kept, and the
      decimal value of the Balance of the last kept record afterwards\<close>
  "tracks_last st \<longleftrightarrow>
     (case snd st of
        None \<Rightarrow> fst st = []
      | Some p \<Rightarrow> fst st \<noteq> [] \<and> Decimal (Balance (last (fst st))) = Inr p)"

definition trimmed_one_sided :: "transaction \<Rightarrow> bool" where
  \<comment> \<open>at most one of Debit and Credit is non-empty, and neither has white space around it\<close>
  "trimmed_one_sided r \<longleftrightarrow>
     one_sided r \<and> strip (Debit r) = Debit r \<and> strip (Credit r) = Credit r"

section \<open>Evaluation\<close>

text \<open>The defining equations, for the evaluation of the model on concrete inputs.\<close>

lemmas ev = is_space_def is_digit_def digit_value_def int_of_digits_def strip_def split_def
  replace_by_empty_def join_def slice_def lower_def str_nat.simps format_signed_def prec_def
  Emax_def Emin_def Etiny_def Etop_def MAX_EMAX_def MIN_ETINY_def is_nan_def is_snan_def
  ndigits_def parse_exponent_def parse_number_def parse_infinity_def parse_nan_def in_range_def
  Decimal_def decimal_str_def round_half_even_def dec_fix_def signed_coeff_def dec_cmp_def
  dec_lt_def dec_gt_def check_nans_def copy_negate_def dec_add_def dec_sub_def dec_abs_def
  is_numeric_def clean_amount_def date_shape_def is_date_def range_down_def upto.simps
  extract_transaction_data_def process_line_def parse_line_def parse_page_def parse_pdf_def
  validate_record_def validate_step_def validate_transactions_def Let_def

section \<open>Facts about strings\<close>


lemma dropWhile_self: "xs = [] \<or> \<not> P (hd xs) \<Longrightarrow> dropWhile P xs = xs"
  by (cases xs) auto

lemma strip_eq_self:
  assumes "s = [] \<or> (\<not> is_space (hd s) \<and> \<not> is_space (last s))"
  shows "strip s = s"
proof (cases "s = []")
  case True
  then show ?thesis by (simp add: strip_def)
next
  case False
  with assms have h: "\<not> is_space (hd s)" and l: "\<not> is_space (last s)" by auto
  from False l have "dropWhile is_space (rev s) = rev s"
    by (intro dropWhile_self) (simp add: hd_rev)
  then show ?thesis using h by (simp add: strip_def dropWhile_self)
qed

lemma strip_ends: "strip s = [] \<or> (\<not> is_space (hd (strip s)) \<and> \<not> is_space (last (strip s)))"
proof -
  define t where "t = dropWhile is_space (rev s)"
  show ?thesis
  proof (cases "t = []")
    case True
    have "strip s = dropWhile is_space (rev t)" by (simp add: strip_def t_def)
    with True show ?thesis by simp
  next
    case False
    then have ht: "\<not> is_space (hd t)" unfolding t_def by (metis hd_dropWhile)
    have lu: "last (rev t) = hd t" using False by (simp add: last_rev)
    have ne: "dropWhile is_space (rev t) \<noteq> []"
    proof
      assume "dropWhile is_space (rev t) = []"
      then have "\<forall>c\<in>set (rev t). is_space c" by (simp add: dropWhile_eq_Nil_conv)
      moreover have "hd t \<in> set (rev t)" using False by simp
      ultimately show False using ht by blast
    qed
    have "rev t = takeWhile is_space (rev t) @ dropWhile is_space (rev t)" by simp
    then have "last (rev t) = last (dropWhile is_space (rev t))"
      using ne by (metis last_appendR)
    then have "\<not> is_space (last (dropWhile is_space (rev t)))" using lu ht by simp
    moreover have "\<not> is_space (hd (dropWhile is_space (rev t)))" using ne by (metis hd_dropWhile)
    ultimately show ?thesis by (simp add: strip_def t_def)
  qed
qed

lemma strip_idem: "strip (strip s) = strip s"
  using strip_ends [of s] by (intro strip_eq_self) auto

lemma strip_no_space: "\<forall>c\<in>set s. \<not> is_space c \<Longrightarrow> strip s = s"
  by (intro strip_eq_self) (cases s, auto)

lemma split_from_tokens:
  "\<forall>c\<in>set cur. \<not> is_space c
   \<Longrightarrow> \<forall>t\<in>set (split_from cur s). t \<noteq> [] \<and> (\<forall>c\<in>set t. \<not> is_space c)"
proof (induction s arbitrary: cur)
  case Nil
  then show ?case by simp
next
  case (Cons a s)
  have e: "\<forall>t\<in>set (split_from [] s). t \<noteq> [] \<and> (\<forall>c\<in>set t. \<not> is_space c)"
    by (rule Cons.IH) simp
  show ?case
  proof (cases "is_space a")
    case True
    then show ?thesis using e Cons.prems by simp
  next
    case False
    then have "\<forall>c\<in>set (cur @ [a]). \<not> is_space c" using Cons.prems by simp
    from Cons.IH [OF this] show ?thesis using False by simp
  qed
qed

lemma split_tokens: "t \<in> set (split s) \<Longrightarrow> t \<noteq> [] \<and> (\<forall>c\<in>set t. \<not> is_space c)"
  unfolding split_def using split_from_tokens [of "[]" s] by simp

lemma newline_is_space: "is_space (CHR 0x0A)"
  by (simp add: is_space_def)

lemma is_date_token: "t \<in> set (split s) \<Longrightarrow> is_date t = date_shape t"
proof -
  assume "t \<in> set (split s)"
  then have ne: "t \<noteq> []" and ns: "\<forall>c\<in>set t. \<not> is_space c"
    using split_tokens [of t s] by auto
  from ne ns have "\<not> is_space (last t)" by simp
  then have "last t \<noteq> CHR 0x0A" using newline_is_space by auto
  then show ?thesis by (simp add: is_date_def)
qed

lemma str_nat_not_Nil: "str_nat n \<noteq> []"
  by (subst str_nat.simps) simp

lemma digit_char_no_space: "d < 10 \<Longrightarrow> \<not> is_space (''0123456789'' ! d)"
proof -
  assume "d < 10"
  then have "''0123456789'' ! d \<in> set ''0123456789''" by (intro nth_mem) simp
  then show ?thesis by (auto simp: is_space_def)
qed

lemma str_nat_no_space: "c \<in> set (str_nat n) \<Longrightarrow> \<not> is_space c"
proof (induction n arbitrary: c rule: str_nat.induct)
  case (1 n)
  show ?case
  proof (cases "n < 10")
    case True
    with "1.prems" show ?thesis
      by (subst (asm) str_nat.simps) (simp add: digit_char_no_space)
  next
    case False
    from "1.prems" have "c \<in> set (str_nat (n div 10)) \<or> c = ''0123456789'' ! (n mod 10)"
      by (subst (asm) str_nat.simps) (auto simp: False)
    then show ?thesis using "1.IH" [OF False] digit_char_no_space [of "n mod 10"] by auto
  qed
qed

lemma ns_take: "list_all P xs \<Longrightarrow> list_all P (take n xs)"
  by (auto simp: list_all_iff dest: in_set_takeD)

lemma ns_drop: "list_all P xs \<Longrightarrow> list_all P (drop n xs)"
  by (auto simp: list_all_iff dest: in_set_dropD)

lemma ns_replicate: "P x \<Longrightarrow> list_all P (replicate n x)"
  by (simp add: list_all_iff)

lemma ns_str_nat: "list_all (\<lambda>c. \<not> is_space c) (str_nat n)"
  using str_nat_no_space by (auto simp: list_all_iff)

lemma ns_chars:
  "\<not> is_space (CHR ''0'')" "\<not> is_space (CHR ''.'')" "\<not> is_space (CHR ''-'')"
  "\<not> is_space (CHR ''+'')" "\<not> is_space (CHR ''E'')" "\<not> is_space (CHR ''I'')"
  "\<not> is_space (CHR ''n'')" "\<not> is_space (CHR ''f'')" "\<not> is_space (CHR ''i'')"
  "\<not> is_space (CHR ''t'')" "\<not> is_space (CHR ''y'')" "\<not> is_space (CHR ''s'')"
  "\<not> is_space (CHR ''N'')" "\<not> is_space (CHR ''a'')"
  by (simp_all add: is_space_def)

lemma ns_format_signed: "list_all (\<lambda>c. \<not> is_space c) (format_signed k)"
  by (simp add: format_signed_def ns_str_nat ns_chars)

lemma ns_decimal_str: "list_all (\<lambda>c. \<not> is_space c) (decimal_str d)"
proof (cases d)
  case (Finite s n e)
  show ?thesis unfolding Finite decimal_str_def Let_def
    by (simp add: ns_chars ns_take ns_drop ns_replicate ns_str_nat ns_format_signed)
next
  case (Infinity s)
  show ?thesis unfolding Infinity decimal_str_def by (simp add: ns_chars)
next
  case (NaN s sig p)
  show ?thesis unfolding NaN decimal_str_def by (simp add: ns_chars ns_str_nat)
qed

lemma decimal_str_no_space: "c \<in> set (decimal_str d) \<Longrightarrow> \<not> is_space c"
  using ns_decimal_str [of d] by (simp add: list_all_iff)

lemma decimal_str_not_Nil: "decimal_str d \<noteq> []"
proof (cases d)
  case (Finite s n e)
  have "0 < length (str_nat n)" using str_nat_not_Nil by simp
  then show ?thesis unfolding Finite decimal_str_def Let_def
    by (auto split: if_splits)
qed (auto simp: decimal_str_def)

lemma strip_decimal_str: "strip (decimal_str d) = decimal_str d"
  by (intro strip_no_space) (auto dest: decimal_str_no_space)

section \<open>Facts about the tokenizer\<close>

lemma cleaned_value_eq:
  "strip (replace_by_empty (CHR 0x27) (replace_by_empty (CHR '','') v)) = clean_amount v"
  by (simp add: clean_amount_def replace_by_empty_def conj_commute)

lemma is_numeric_iff:
  "is_numeric v \<longleftrightarrow> clean_amount v \<noteq> [] \<and> (\<exists>d. Decimal (clean_amount v) = Inr d)"
  unfolding is_numeric_def Let_def cleaned_value_eq by (auto split: sum.splits)

lemma scan_balance_None:
  "fst (scan_balance parts i rest) = None \<longleftrightarrow> (\<forall>p\<in>set rest. \<not> is_numeric p)"
  by (induction rest arbitrary: i) auto

lemma scan_balance_Some:
  "scan_balance parts i rest = (Some b, k)
   \<Longrightarrow> \<exists>n<length rest. is_numeric (rest ! n) \<and> (\<forall>m<n. \<not> is_numeric (rest ! m))
         \<and> b = clean_amount (rest ! n) \<and> k = int (length parts) - 1 - int (i + n)"
proof (induction rest arbitrary: i)
  case Nil
  then show ?case by simp
next
  case (Cons part rest)
  show ?case
  proof (cases "is_numeric part")
    case True
    with Cons.prems have "b = clean_amount part" "k = int (length parts) - 1 - int i" by auto
    with True show ?thesis by (intro exI [of _ 0]) simp
  next
    case False
    with Cons.prems have "scan_balance parts (Suc i) rest = (Some b, k)" by simp
    from Cons.IH [OF this] obtain n where n: "n < length rest" "is_numeric (rest ! n)"
      "\<forall>m<n. \<not> is_numeric (rest ! m)" "b = clean_amount (rest ! n)"
      "k = int (length parts) - 1 - int (Suc i + n)" by blast
    have "\<forall>m<Suc n. \<not> is_numeric ((part # rest) ! m)"
    proof (intro allI impI)
      fix m assume "m < Suc n"
      then show "\<not> is_numeric ((part # rest) ! m)" using False n(3) by (cases m) auto
    qed
    with n show ?thesis by (intro exI [of _ "Suc n"]) simp
  qed
qed

lemma balance_rightmost:
  assumes "scan_balance parts 0 (rev parts) = (Some b, k)"
  shows "\<exists>j<length parts. k = int j \<and> is_numeric (parts ! j)
           \<and> (\<forall>m. j < m \<and> m < length parts \<longrightarrow> \<not> is_numeric (parts ! m))
           \<and> b = clean_amount (parts ! j)"
proof -
  from scan_balance_Some [OF assms] obtain n where n: "n < length parts"
    "is_numeric (rev parts ! n)" "\<forall>m<n. \<not> is_numeric (rev parts ! m)"
    "b = clean_amount (rev parts ! n)" "k = int (length parts) - 1 - int (0 + n)" by auto
  define j where "j = length parts - Suc n"
  have jn: "rev parts ! n = parts ! j" using n(1) by (simp add: rev_nth j_def)
  have jl: "j < length parts" using n(1) by (simp add: j_def)
  have kj: "k = int j" using n(1) n(5) by (simp add: j_def)
  have "\<not> is_numeric (parts ! m)" if "j < m" "m < length parts" for m
  proof -
    define m' where "m' = length parts - Suc m"
    have "m' < n" using that n(1) by (simp add: m'_def j_def)
    moreover have "rev parts ! m' = parts ! m" using that by (simp add: rev_nth m'_def)
    ultimately show ?thesis using n(3) by metis
  qed
  with jn jl kj n(2) n(4) show ?thesis by (intro exI [of _ j]) simp
qed

lemma scan_amount_cases:
  "scan_amount parts idx = (a, k)
   \<Longrightarrow> (a = None \<and> k = - 1)
       \<or> (\<exists>i\<in>set idx. i < int (length parts) \<and> is_numeric (parts ! nat i)
             \<and> a = Some (clean_amount (parts ! nat i)) \<and> k = i)"
  by (induction idx) (auto split: if_splits)

lemma extract_None_iff:
  "extract_transaction_data line = None \<longleftrightarrow>
     length (split line) < 3 \<or> \<not> is_date (split line ! 0)
     \<or> fst (scan_balance (split line) 0 (rev (split line))) = None"
proof -
  obtain b k where bk: "scan_balance (split line) 0 (rev (split line)) = (b, k)"
    by (cases "scan_balance (split line) 0 (rev (split line))")
  show ?thesis
  proof (cases b)
    case None
    with bk show ?thesis by (simp add: extract_transaction_data_def Let_def)
  next
    case (Some bal)
    from balance_rightmost [OF bk [unfolded Some]] have "bal \<noteq> []"
      by (auto simp: is_numeric_iff)
    with bk Some show ?thesis
      by (simp add: extract_transaction_data_def Let_def split: prod.splits)
  qed
qed

text \<open>
  C6. The tokenizer rejects a line exactly when the line has fewer than three tokens, or
  its first token is not two digits, a dot, two digits, a dot, two digits, or none of its
  tokens looks numeric.
\<close>

theorem tokenizer_rejects_iff:
  "extract_transaction_data line = None \<longleftrightarrow>
     length (split line) < 3 \<or> \<not> date_shape (split line ! 0)
     \<or> (\<forall>t\<in>set (split line). \<not> is_numeric t)"
proof (cases "length (split line) < 3")
  case True
  then show ?thesis by (simp add: extract_None_iff)
next
  case False
  then have "split line ! 0 \<in> set (split line)" by (intro nth_mem) auto
  then have "is_date (split line ! 0) = date_shape (split line ! 0)" by (rule is_date_token)
  then show ?thesis by (simp add: extract_None_iff scan_balance_None)
qed

theorem tokenizer_rejects_iff_witness:
  "extract_transaction_data ''2024.01.01 X 5'' = None
   \<and> extract_transaction_data ''01.02.24 X'' = None
   \<and> extract_transaction_data ''01.02.24 X Y'' = None
   \<and> extract_transaction_data ''01.02.24 X 12.50'' \<noteq> None"
  using tokenizer_rejects_iff [of "''2024.01.01 X 5''"] tokenizer_rejects_iff [of "''01.02.24 X''"]
    tokenizer_rejects_iff [of "''01.02.24 X Y''"] tokenizer_rejects_iff [of "''01.02.24 X 12.50''"]
  by (simp add: ev)

section \<open>Facts about the parser\<close>

lemma extract_Some:
  assumes "extract_transaction_data line = Some td"
  shows "\<exists>k ai. 3 \<le> length (split line) \<and> is_date (split line ! 0)
           \<and> scan_balance (split line) 0 (rev (split line)) = (Some (balance td), k)
           \<and> scan_amount (split line) (range_down k) = (amount td, ai)
           \<and> date td = split line ! 0
           \<and> description td = strip (join '' '' (if ai > 0 then slice (split line) 1 ai
                                                   else slice (split line) 1 k))"
proof -
  obtain b k where bk: "scan_balance (split line) 0 (rev (split line)) = (b, k)"
    by (cases "scan_balance (split line) 0 (rev (split line))")
  obtain a ai where aa: "scan_amount (split line) (range_down k) = (a, ai)"
    by (cases "scan_amount (split line) (range_down k)")
  from assms bk aa show ?thesis
    by (auto simp: extract_transaction_data_def Let_def split: if_splits option.splits)
qed

lemma extract_fields_parse:
  assumes "extract_transaction_data line = Some td"
  shows "(\<exists>cur. Decimal (balance td) = Inr cur)
         \<and> (\<forall>a. amount td = Some a \<longrightarrow> a \<noteq> [] \<and> (\<exists>d. Decimal a = Inr d))"
proof -
  from extract_Some [OF assms] obtain k ai where
    b: "scan_balance (split line) 0 (rev (split line)) = (Some (balance td), k)" and
    a: "scan_amount (split line) (range_down k) = (amount td, ai)" by blast
  from balance_rightmost [OF b] have "\<exists>cur. Decimal (balance td) = Inr cur"
    by (auto simp: is_numeric_iff)
  moreover from scan_amount_cases [OF a]
  have "\<forall>x. amount td = Some x \<longrightarrow> x \<noteq> [] \<and> (\<exists>d. Decimal x = Inr d)"
    by (auto simp: is_numeric_iff)
  ultimately show ?thesis by blast
qed

lemma process_line_eq:
  assumes "extract_transaction_data line = Some td" and "Decimal (balance td) = Inr cur"
  shows "process_line prev line =
     (case (prev, amount td) of
        (Some p, Some a) \<Rightarrow>
          if is_nan cur \<or> is_nan p then Inl InvalidOperation
          else if dec_cmp cur p > 0
          then Inr (Some (emitted td [] (decimal_str (projr (Decimal a))), cur))
          else Inr (Some (emitted td (decimal_str (projr (Decimal a))) [], cur))
      | _ \<Rightarrow> Inr (Some (emitted td [] [], cur)))"
proof -
  from extract_fields_parse [OF assms(1)]
  have a: "\<forall>a. amount td = Some a \<longrightarrow> a \<noteq> [] \<and> (\<exists>d. Decimal a = Inr d)" by blast
  show ?thesis
  proof (cases "amount td")
    case None
    then show ?thesis using assms
      by (simp add: process_line_def emitted_def split: option.splits)
  next
    case (Some x)
    with a obtain d where d: "x \<noteq> []" "Decimal x = Inr d" by blast
    show ?thesis using assms Some d
      by (cases prev) (simp_all add: process_line_def emitted_def dec_gt_def)
  qed
qed

section \<open>Claims about the parser\<close>

text \<open>
  C1. For every line from which the parser emits a record: the record is appended and the
  balance of the line becomes the previous balance; when a previous balance is known and
  the line has an amount, the amount (the string of its decimal value) is the Credit, with
  an empty Debit, if the balance is above the previous one, and the Debit, with an empty
  Credit, if the balance is equal to or below it; when there is no previous balance or no
  amount, Debit and Credit are both empty.
\<close>

theorem parser_debit_credit:
  assumes "parse_line (transactions, prev) line = (transactions', prev')"
    and "transactions' \<noteq> transactions"
  shows "\<exists>td cur r. extract_transaction_data line = Some td \<and> Decimal (balance td) = Inr cur
           \<and> transactions' = transactions @ [r] \<and> prev' = Some cur
           \<and> Date r = date td \<and> Description r = description td \<and> Balance r = balance td
           \<and> (\<forall>p a. prev = Some p \<and> amount td = Some a \<longrightarrow>
                 (\<exists>amt. Decimal a = Inr amt
                    \<and> (dec_cmp cur p > 0 \<longrightarrow> Credit r = decimal_str amt \<and> Debit r = [])
                    \<and> (dec_cmp cur p \<le> 0 \<longrightarrow> Debit r = decimal_str amt \<and> Credit r = [])))
           \<and> (prev = None \<or> amount td = None \<longrightarrow> Debit r = [] \<and> Credit r = [])"
proof -
  from assms obtain td where td: "extract_transaction_data line = Some td"
    by (cases "extract_transaction_data line") (auto simp: parse_line_def process_line_def)
  from extract_fields_parse [OF td] obtain cur where cur: "Decimal (balance td) = Inr cur"
    and am: "\<forall>a. amount td = Some a \<longrightarrow> a \<noteq> [] \<and> (\<exists>d. Decimal a = Inr d)" by blast
  note eq = process_line_eq [OF td cur, of prev]
  show ?thesis
  proof (cases "prev = None \<or> amount td = None")
    case True
    then have "process_line prev line = Inr (Some (emitted td [] [], cur))"
      using eq by (auto split: option.splits)
    with assms(1) have "transactions' = transactions @ [emitted td [] []]" "prev' = Some cur"
      by (auto simp: parse_line_def)
    with td cur True show ?thesis
      by (intro exI [of _ td] exI [of _ cur] exI [of _ "emitted td [] []"])
        (auto simp: emitted_def)
  next
    case False
    then obtain p a where pa: "prev = Some p" "amount td = Some a" by auto
    from am pa obtain amt where amt: "Decimal a = Inr amt" by blast
    have nn: "\<not> (is_nan cur \<or> is_nan p)"
    proof
      assume "is_nan cur \<or> is_nan p"
      then have "process_line prev line = Inl InvalidOperation" using eq pa by simp
      with assms show False by (simp add: parse_line_def)
    qed
    define r where "r = (if dec_cmp cur p > 0 then emitted td [] (decimal_str amt)
                         else emitted td (decimal_str amt) [])"
    have "process_line prev line = Inr (Some (r, cur))"
      using eq pa nn amt by (simp add: r_def)
    with assms(1) have "transactions' = transactions @ [r]" "prev' = Some cur"
      by (auto simp: parse_line_def)
    with td cur pa amt show ?thesis
      by (intro exI [of _ td] exI [of _ cur] exI [of _ r]) (auto simp: r_def emitted_def)
  qed
qed

theorem parser_debit_credit_witness:
  "\<exists>td cur r. extract_transaction_data ''01.02.24 GROCERY STORE 45.00 1,000.00'' = Some td
     \<and> Decimal (balance td) = Inr cur
     \<and> [\<lparr>Date = ''01.02.24'', Description = ''GROCERY STORE'', Debit = ''45.00'', Credit = [],
          Balance = ''1000.00''\<rparr>] = [] @ [r]
     \<and> Some (Finite False 100000 (- 2)) = Some cur
     \<and> Date r = date td \<and> Description r = description td \<and> Balance r = balance td
     \<and> (\<forall>p a. Some (Finite False 104500 (- 2)) = Some p \<and> amount td = Some a \<longrightarrow>
           (\<exists>amt. Decimal a = Inr amt
              \<and> (dec_cmp cur p > 0 \<longrightarrow> Credit r = decimal_str amt \<and> Debit r = [])
              \<and> (dec_cmp cur p \<le> 0 \<longrightarrow> Debit r = decimal_str amt \<and> Credit r = [])))
     \<and> (Some (Finite False 104500 (- 2)) = None \<or> amount td = None
           \<longrightarrow> Debit r = [] \<and> Credit r = [])"
proof -
  have h: "parse_line ([], Some (Finite False 104500 (- 2))) ''01.02.24 GROCERY STORE 45.00 1,000.00''
      = ([\<lparr>Date = ''01.02.24'', Description = ''GROCERY STORE'', Debit = ''45.00'', Credit = [],
            Balance = ''1000.00''\<rparr>], Some (Finite False 100000 (- 2)))"
    by (simp add: ev)
  show ?thesis by (rule parser_debit_credit [OF h]) simp
qed

text \<open>
  C4, as stated, fails: the stored balance is the cleaned token, which is no token of the
  line when the token holds a comma or an apostrophe.
\<close>

theorem balance_token_counterexample:
  "extract_transaction_data ''01.02.24 GROCERY STORE 45.00 1,000.00''
     = Some \<lparr>date = ''01.02.24'', description = ''GROCERY STORE'', amount = Some ''45.00'',
            balance = ''1000.00''\<rparr>
   \<and> ''1000.00'' \<notin> set (split ''01.02.24 GROCERY STORE 45.00 1,000.00'')"
  by (simp add: ev)

text \<open>
  C4, amended. For every accepted line, the balance stored by the tokenizer, and hence the
  Balance of the emitted record, is the rightmost token that looks numeric with its commas
  and apostrophes removed; it is that token itself when the token holds neither.
\<close>

theorem balance_is_cleaned_rightmost_numeric:
  assumes "extract_transaction_data line = Some td"
  shows "\<exists>j<length (split line).
           is_numeric (split line ! j)
           \<and> (\<forall>m. j < m \<and> m < length (split line) \<longrightarrow> \<not> is_numeric (split line ! m))
           \<and> balance td = clean_amount (split line ! j)
           \<and> (CHR '','' \<notin> set (split line ! j) \<and> CHR 0x27 \<notin> set (split line ! j)
                \<longrightarrow> balance td = split line ! j)
           \<and> (\<forall>prev r cur. process_line prev line = Inr (Some (r, cur)) \<longrightarrow> Balance r = balance td)"
proof -
  from extract_Some [OF assms] obtain k where
    "scan_balance (split line) 0 (rev (split line)) = (Some (balance td), k)" by blast
  from balance_rightmost [OF this] obtain j where j: "j < length (split line)"
    "is_numeric (split line ! j)"
    "\<forall>m. j < m \<and> m < length (split line) \<longrightarrow> \<not> is_numeric (split line ! m)"
    "balance td = clean_amount (split line ! j)" by blast
  have tok: "\<forall>c\<in>set (split line ! j). \<not> is_space c"
    using split_tokens [of "split line ! j" line] j(1) by simp
  have same: "balance td = split line ! j"
    if "CHR '','' \<notin> set (split line ! j) \<and> CHR 0x27 \<notin> set (split line ! j)"
  proof -
    from that have "replace_by_empty (CHR '','') (replace_by_empty (CHR 0x27) (split line ! j))
        = split line ! j"
      by (auto simp: replace_by_empty_def filter_id_conv)
    then show ?thesis using j(4) tok by (simp add: clean_amount_def strip_no_space)
  qed
  obtain c where c: "Decimal (balance td) = Inr c"
    using extract_fields_parse [OF assms] by blast
  have rec: "Balance r = balance td" if "process_line prev line = Inr (Some (r, cur))"
    for prev r cur
    using that process_line_eq [OF assms c, of prev]
    by (auto simp: emitted_def split: option.splits if_splits)
  from j same rec show ?thesis by blast
qed

theorem balance_is_cleaned_rightmost_numeric_witness:
  "\<exists>j<length (split ''01.02.24 GROCERY STORE 45.00 1,000.00'').
     is_numeric (split ''01.02.24 GROCERY STORE 45.00 1,000.00'' ! j)
     \<and> (\<forall>m. j < m \<and> m < length (split ''01.02.24 GROCERY STORE 45.00 1,000.00'')
            \<longrightarrow> \<not> is_numeric (split ''01.02.24 GROCERY STORE 45.00 1,000.00'' ! m))
     \<and> ''1000.00'' = clean_amount (split ''01.02.24 GROCERY STORE 45.00 1,000.00'' ! j)"
proof -
  have h: "extract_transaction_data ''01.02.24 GROCERY STORE 45.00 1,000.00''
     = Some \<lparr>date = ''01.02.24'', description = ''GROCERY STORE'', amount = Some ''45.00'',
            balance = ''1000.00''\<rparr>"
    by (simp add: ev)
  from balance_is_cleaned_rightmost_numeric [OF h] show ?thesis by auto
qed

text \<open>
  C9, as stated, fails in its conclusion: the token \<open>NaN\<close> passes the lenient check and
  converts, but the ordering comparison with a NaN raises, so the handler of the parser is
  reached for a line that the tokenizer accepted, and the line is skipped.
\<close>

theorem parse_failure_branch_counterexample:
  "extract_transaction_data ''02.02.24 B 5 NaN''
     = Some \<lparr>date = ''02.02.24'', description = ''B'', amount = Some ''5'', balance = ''NaN''\<rparr>
   \<and> Decimal ''NaN'' = Inr (NaN False False 0)
   \<and> process_line (Some (Finite False 10 0)) ''02.02.24 B 5 NaN'' = Inl InvalidOperation
   \<and> parse_pdf (Pdf [Some (''01.02.24 A 5 10'' @ [CHR 0x0A] @ ''02.02.24 B 5 NaN'')])
     = Inr [\<lparr>Date = ''01.02.24'', Description = ''A'', Debit = [], Credit = [],
              Balance = ''10''\<rparr>]"
  by (simp add: ev)

text \<open>
  C9, amended. For every result of the tokenizer, the stored balance string, and the amount
  string when present, is not empty and converts with \<open>Decimal\<close>, because the lenient check
  cleans and converts the token as the stored normalization does; hence the two conversions
  in the parser never raise. The handler of the parser is reached for such a line exactly
  when a previous balance is known, an amount is present, and the balance or the previous
  balance is a NaN, through the comparison.
\<close>

theorem accepted_fields_convert:
  assumes "extract_transaction_data line = Some td"
  shows "\<exists>cur. balance td \<noteq> [] \<and> Decimal (balance td) = Inr cur
           \<and> (\<forall>a. amount td = Some a \<longrightarrow> a \<noteq> [] \<and> (\<exists>d. Decimal a = Inr d))
           \<and> (\<forall>prev. (\<exists>e. process_line prev line = Inl e) \<longleftrightarrow>
                 (\<exists>p. prev = Some p \<and> amount td \<noteq> None \<and> (is_nan cur \<or> is_nan p)))"
proof -
  from extract_fields_parse [OF assms] obtain cur where cur: "Decimal (balance td) = Inr cur"
    and am: "\<forall>a. amount td = Some a \<longrightarrow> a \<noteq> [] \<and> (\<exists>d. Decimal a = Inr d)" by blast
  from extract_Some [OF assms] obtain k where
    "scan_balance (split line) 0 (rev (split line)) = (Some (balance td), k)" by blast
  from balance_rightmost [OF this] have ne: "balance td \<noteq> []" by (auto simp: is_numeric_iff)
  have "(\<exists>e. process_line prev line = Inl e) \<longleftrightarrow>
          (\<exists>p. prev = Some p \<and> amount td \<noteq> None \<and> (is_nan cur \<or> is_nan p))" for prev
    unfolding process_line_eq [OF assms cur]
    by (cases prev; cases "amount td") auto
  with cur am ne show ?thesis by blast
qed

theorem accepted_fields_convert_witness:
  "\<exists>cur. ''NaN'' \<noteq> [] \<and> Decimal ''NaN'' = Inr cur
     \<and> (\<exists>d. Decimal ''5'' = Inr d)
     \<and> ((\<exists>e. process_line (Some (Finite False 10 0)) ''02.02.24 B 5 NaN'' = Inl e) \<longleftrightarrow>
           (is_nan cur \<or> is_nan (Finite False 10 0)))"
proof -
  have h: "extract_transaction_data ''02.02.24 B 5 NaN''
     = Some \<lparr>date = ''02.02.24'', description = ''B'', amount = Some ''5'', balance = ''NaN''\<rparr>"
    by (simp add: ev)
  from accepted_fields_convert [OF h] show ?thesis by auto
qed

text \<open>
  C10, as stated, fails on a line of two tokens: its only numeric token follows the date,
  but the tokenizer rejects every line with fewer than three tokens.
\<close>

theorem balance_after_date_counterexample:
  "split ''01.02.24 100.00'' = [''01.02.24'', ''100.00'']
   \<and> date_shape ''01.02.24'' \<and> \<not> is_numeric ''01.02.24'' \<and> is_numeric ''100.00''
   \<and> extract_transaction_data ''01.02.24 100.00'' = None"
  by (simp add: ev)

text \<open>
  C10, amended. For every line of at least three tokens that starts with a date and whose
  only numeric token is the token right after the date, the tokenizer accepts the line with
  an absent amount and an empty description; the parser emits a record from it, whatever
  the previous balance, and the validator drops that record, in every state, because its
  Description is empty.
\<close>

theorem balance_after_date:
  assumes "3 \<le> length (split line)" and "date_shape (split line ! 0)"
    and "is_numeric (split line ! 1)"
    and "\<forall>i<length (split line). i \<noteq> 1 \<longrightarrow> \<not> is_numeric (split line ! i)"
  shows "extract_transaction_data line
           = Some \<lparr>date = split line ! 0, description = [], amount = None,
                  balance = clean_amount (split line ! 1)\<rparr>
         \<and> (\<exists>r cur. process_line prev line = Inr (Some (r, cur)) \<and> Description r = []
               \<and> validate_record vprev r = Inr None \<and> validate_step st r = Inr st)"
proof -
  define parts where "parts = split line"
  have len: "3 \<le> length parts" using assms(1) by (simp add: parts_def)
  have "parts ! 0 \<in> set parts" using len by (intro nth_mem) auto
  then have dt: "is_date (parts ! 0)"
    using assms(2) is_date_token [of "parts ! 0" line] by (simp add: parts_def)
  have "parts ! 1 \<in> set (rev parts)" using len by (simp add: nth_mem)
  then have "fst (scan_balance parts 0 (rev parts)) \<noteq> None"
    using assms(3) scan_balance_None [of parts 0 "rev parts"] by (auto simp: parts_def)
  then obtain b k where bk: "scan_balance parts 0 (rev parts) = (Some b, k)"
    by (cases "scan_balance parts 0 (rev parts)") auto
  from balance_rightmost [OF bk] obtain j where j: "j < length parts" "k = int j"
    "is_numeric (parts ! j)" "b = clean_amount (parts ! j)" by blast
  have j1: "j = 1" using assms(4) j(1) j(3) by (auto simp: parts_def)
  have bne: "b \<noteq> []" using j(3) j(4) by (simp add: is_numeric_iff)
  have sa: "scan_amount parts (range_down k) = (None, - 1)"
    using j(2) j1 by (simp add: range_down_def)
  have sl: "slice parts 1 k = []" using j(2) j1 len by (simp add: slice_def)
  have ex: "extract_transaction_data line
      = Some \<lparr>date = parts ! 0, description = [], amount = None, balance = clean_amount (parts ! 1)\<rparr>"
    using len dt bk bne sa sl j(4) j1
    by (simp add: extract_transaction_data_def parts_def [symmetric] Let_def join_def strip_def)
  obtain cur where cur: "Decimal (clean_amount (parts ! 1)) = Inr cur"
    using assms(3) by (auto simp: is_numeric_iff parts_def)
  define r where "r = \<lparr>Date = parts ! 0, Description = [], Debit = [], Credit = [],
                        Balance = clean_amount (parts ! 1)\<rparr>"
  have pl: "process_line prev line = Inr (Some (r, cur))"
    using process_line_eq [OF ex, of cur prev] cur
    by (auto simp: emitted_def r_def split: option.splits)
  have vr: "validate_record vprev r = Inr None"
    by (simp add: validate_record_def r_def strip_def)
  have "validate_record (snd st) r = Inr None"
    by (simp add: validate_record_def r_def strip_def)
  then have vs: "validate_step st r = Inr st" by (simp add: validate_step_def)
  have "Description r = []" by (simp add: r_def)
  with ex pl vr vs show ?thesis unfolding parts_def by blast
qed

theorem balance_after_date_witness:
  "extract_transaction_data ''01.02.24 100.00 foo''
     = Some \<lparr>date = split ''01.02.24 100.00 foo'' ! 0, description = [], amount = None,
            balance = clean_amount (split ''01.02.24 100.00 foo'' ! 1)\<rparr>
   \<and> (\<exists>r cur. process_line None ''01.02.24 100.00 foo'' = Inr (Some (r, cur))
         \<and> Description r = [] \<and> validate_record None r = Inr None
         \<and> validate_step ([], None) r = Inr ([], None))"
proof -
  have s: "split ''01.02.24 100.00 foo'' = [''01.02.24'', ''100.00'', ''foo'']"
    by (simp add: ev)
  have n: "\<not> is_numeric ''01.02.24''" "is_numeric ''100.00''" "\<not> is_numeric ''foo''"
    "date_shape ''01.02.24''"
    by (simp_all add: ev)
  have h4: "\<forall>i<length (split ''01.02.24 100.00 foo''). i \<noteq> 1
               \<longrightarrow> \<not> is_numeric (split ''01.02.24 100.00 foo'' ! i)"
    unfolding s using n by (auto simp: less_Suc_eq numeral_3_eq_3)
  show ?thesis
    by (rule balance_after_date [where prev = None and vprev = None and st = "([], None)"])
      (use s n h4 in simp_all)
qed

section \<open>Facts about the validator\<close>

lemma validate_record_eq:
  "validate_record prev t =
     (if strip (Date t) = [] \<or> strip (Description t) = [] \<or> strip (Balance t) = [] then Inr None
      else case Decimal (strip (Balance t)) of
        Inl e \<Rightarrow> Inl e
      | Inr cur \<Rightarrow>
          (case prev of
             None \<Rightarrow> Inr (Some (repaired t (strip (Debit t)) (strip (Credit t)), cur))
           | Some p \<Rightarrow>
               (case dec_sub cur p of
                  Inl e \<Rightarrow> Inl e
                | Inr d \<Rightarrow>
                    (case dec_abs d of
                       Inl e \<Rightarrow> Inl e
                     | Inr diff \<Rightarrow>
                         if strip (Debit t) = [] \<and> strip (Credit t) = []
                         then if is_nan cur \<or> is_nan p then Inl InvalidOperation
                              else if dec_cmp cur p < 0
                              then Inr (Some (repaired t (decimal_str diff) [], cur))
                              else if dec_cmp cur p > 0
                              then Inr (Some (repaired t [] (decimal_str diff), cur))
                              else Inr (Some (repaired t [] [], cur))
                         else Inr (Some (repaired t (strip (Debit t)) (strip (Credit t)), cur))))))"
  unfolding validate_record_def Let_def repaired_def dec_lt_def dec_gt_def
  by (simp split: sum.splits option.splits)

lemma validate_record_kept:
  assumes "validate_record prev t = Inr (Some (r, cur))"
  shows "Decimal (strip (Balance t)) = Inr cur \<and> kept_from r t
         \<and> Date r \<noteq> [] \<and> Description r \<noteq> [] \<and> Balance r \<noteq> []
         \<and> (prev = None \<longrightarrow> Debit r = strip (Debit t) \<and> Credit r = strip (Credit t))
         \<and> (\<forall>p. prev = Some p \<longrightarrow>
               (\<exists>d diff. dec_sub cur p = Inr d \<and> dec_abs d = Inr diff
                  \<and> (if strip (Debit t) = [] \<and> strip (Credit t) = []
                     then \<not> is_nan cur \<and> \<not> is_nan p
                          \<and> (dec_cmp cur p < 0 \<longrightarrow> Debit r = decimal_str diff \<and> Credit r = [])
                          \<and> (dec_cmp cur p > 0 \<longrightarrow> Credit r = decimal_str diff \<and> Debit r = [])
                          \<and> (dec_cmp cur p = 0 \<longrightarrow> Debit r = [] \<and> Credit r = [])
                     else Debit r = strip (Debit t) \<and> Credit r = strip (Credit t))))"
  using assms unfolding validate_record_eq [of prev t] kept_from_def repaired_def
  by (auto split: if_splits sum.splits option.splits)

lemma validate_record_again:
  assumes "validate_record prev t = Inr (Some (r, cur))"
  shows "validate_record prev r = Inr (Some (r, cur))"
proof -
  note k = validate_record_kept [OF assms]
  have f: "strip (Date r) = Date r" "strip (Description r) = Description r"
    "strip (Balance r) = Balance r"
    using k by (simp_all add: kept_from_def strip_idem)
  have ne: "Date r \<noteq> []" "Description r \<noteq> []" "Balance r \<noteq> []" using k by simp_all
  have c: "Decimal (Balance r) = Inr cur" using k by (simp add: kept_from_def)
  have same: "repaired r (Debit r) (Credit r) = r" by (simp add: repaired_def f)
  show ?thesis
  proof (cases prev)
    case None
    with k have "strip (Debit r) = Debit r" "strip (Credit r) = Credit r"
      by (simp_all add: strip_idem)
    then show ?thesis using None f ne c same by (simp add: validate_record_eq)
  next
    case (Some p)
    with k obtain d diff where d: "dec_sub cur p = Inr d" "dec_abs d = Inr diff"
      and br: "if strip (Debit t) = [] \<and> strip (Credit t) = []
               then \<not> is_nan cur \<and> \<not> is_nan p
                    \<and> (dec_cmp cur p < 0 \<longrightarrow> Debit r = decimal_str diff \<and> Credit r = [])
                    \<and> (dec_cmp cur p > 0 \<longrightarrow> Credit r = decimal_str diff \<and> Debit r = [])
                    \<and> (dec_cmp cur p = 0 \<longrightarrow> Debit r = [] \<and> Credit r = [])
               else Debit r = strip (Debit t) \<and> Credit r = strip (Credit t)"
      by blast
    have e: "strip [] = []" by (simp add: strip_def)
    consider (lt) "strip (Debit t) = []" "strip (Credit t) = []" "dec_cmp cur p < 0"
      | (gt) "strip (Debit t) = []" "strip (Credit t) = []" "dec_cmp cur p > 0"
      | (eq) "strip (Debit t) = []" "strip (Credit t) = []" "dec_cmp cur p = 0"
      | (set) "\<not> (strip (Debit t) = [] \<and> strip (Credit t) = [])"
      by linarith
    then show ?thesis
    proof cases
      case lt
      with br have "Debit r = decimal_str diff" "Credit r = []" by simp_all
      then show ?thesis using Some f ne c d same e
        by (simp add: validate_record_eq strip_decimal_str decimal_str_not_Nil)
    next
      case gt
      with br have "Credit r = decimal_str diff" "Debit r = []" by simp_all
      then show ?thesis using Some f ne c d same e
        by (simp add: validate_record_eq strip_decimal_str decimal_str_not_Nil)
    next
      case eq
      with br have "Debit r = []" "Credit r = []" "\<not> is_nan cur" "\<not> is_nan p" by simp_all
      then show ?thesis using Some f ne c d same e eq
        by (simp add: validate_record_eq)
    next
      case set
      with br have s: "Debit r = strip (Debit t)" "Credit r = strip (Credit t)" by simp_all
      then have "strip (Debit r) = Debit r" "strip (Credit r) = Credit r"
        by (simp_all add: strip_idem)
      moreover have "\<not> (Debit r = [] \<and> Credit r = [])" using set s by simp
      ultimately show ?thesis using Some f ne c d same
        by (auto simp: validate_record_eq)
    qed
  qed
qed

lemma validate_loop_list:
  "(case validate_loop (acc, prev) ts of Inl e \<Rightarrow> Inl e | Inr st \<Rightarrow> Inr (fst st))
   = (case validated_from prev ts of Inl e \<Rightarrow> Inl e | Inr out \<Rightarrow> Inr (acc @ out))"
proof (induction ts arbitrary: acc prev)
  case Nil
  show ?case by simp
next
  case (Cons t ts)
  show ?case
  proof (cases "validate_record prev t")
    case (Inl e)
    then show ?thesis using Cons.IH [of acc prev]
      by (cases e) (simp_all add: validate_step_def)
  next
    case (Inr x)
    show ?thesis
    proof (cases x)
      case None
      then show ?thesis using Inr Cons.IH [of acc prev] by (simp add: validate_step_def)
    next
      case (Some rc)
      obtain r cur where rc: "rc = (r, cur)" by (cases rc)
      show ?thesis using Inr Some rc Cons.IH [of "acc @ [r]" "Some cur"]
        by (simp add: validate_step_def split: sum.splits)
    qed
  qed
qed

lemma validate_transactions_list: "validate_transactions ts = validated_from None ts"
  using validate_loop_list [of "[]" None ts]
  by (simp add: validate_transactions_def split: sum.splits)

lemma validated_from_again:
  "validated_from prev ts = Inr out \<Longrightarrow> validated_from prev out = Inr out"
proof (induction ts arbitrary: prev out)
  case Nil
  then show ?case by simp
next
  case (Cons t ts)
  show ?case
  proof (cases "validate_record prev t")
    case (Inl e)
    then show ?thesis using Cons by (cases e) simp_all
  next
    case (Inr x)
    show ?thesis
    proof (cases x)
      case None
      then show ?thesis using Inr Cons by simp
    next
      case (Some rc)
      obtain r cur where rc: "rc = (r, cur)" by (cases rc)
      from Cons.prems Inr Some rc obtain out' where o: "validated_from (Some cur) ts = Inr out'"
        "out = r # out'" by (auto split: sum.splits)
      from Cons.IH [OF o(1)] have "validated_from (Some cur) out' = Inr out'" .
      moreover have "validate_record prev r = Inr (Some (r, cur))"
        using validate_record_again Inr Some rc by simp
      ultimately show ?thesis using o(2) by simp
    qed
  qed
qed

section \<open>Claims about the validator\<close>

text \<open>
  C3. The validator is idempotent on its own output: when it returns a list, applying it
  to that list returns the same list.
\<close>

theorem validate_idempotent:
  assumes "validate_transactions ts = Inr out"
  shows "validate_transactions out = Inr out"
  using assms validated_from_again [of None ts out] by (simp add: validate_transactions_list)

theorem validate_idempotent_witness:
  "validate_transactions
     [\<lparr>Date = ''01.02.24'', Description = ''GROCERY STORE'', Debit = [], Credit = [],
        Balance = ''1000.00''\<rparr>,
      \<lparr>Date = ''02.02.24'', Description = [], Debit = [], Credit = [], Balance = ''900.00''\<rparr>,
      \<lparr>Date = ''03.02.24'', Description = '' SALARY '', Debit = [], Credit = [],
        Balance = ''1200.00''\<rparr>]
   = Inr [\<lparr>Date = ''01.02.24'', Description = ''GROCERY STORE'', Debit = [], Credit = [],
            Balance = ''1000.00''\<rparr>,
          \<lparr>Date = ''03.02.24'', Description = ''SALARY'', Debit = [], Credit = ''200.00'',
            Balance = ''1200.00''\<rparr>]
   \<and> validate_transactions
       [\<lparr>Date = ''01.02.24'', Description = ''GROCERY STORE'', Debit = [], Credit = [],
          Balance = ''1000.00''\<rparr>,
        \<lparr>Date = ''03.02.24'', Description = ''SALARY'', Debit = [], Credit = ''200.00'',
          Balance = ''1200.00''\<rparr>]
     = Inr [\<lparr>Date = ''01.02.24'', Description = ''GROCERY STORE'', Debit = [], Credit = [],
              Balance = ''1000.00''\<rparr>,
            \<lparr>Date = ''03.02.24'', Description = ''SALARY'', Debit = [], Credit = ''200.00'',
              Balance = ''1200.00''\<rparr>]"
proof -
  have h: "validate_transactions
     [\<lparr>Date = ''01.02.24'', Description = ''GROCERY STORE'', Debit = [], Credit = [],
        Balance = ''1000.00''\<rparr>,
      \<lparr>Date = ''02.02.24'', Description = [], Debit = [], Credit = [], Balance = ''900.00''\<rparr>,
      \<lparr>Date = ''03.02.24'', Description = '' SALARY '', Debit = [], Credit = [],
        Balance = ''1200.00''\<rparr>]
   = Inr [\<lparr>Date = ''01.02.24'', Description = ''GROCERY STORE'', Debit = [], Credit = [],
            Balance = ''1000.00''\<rparr>,
          \<lparr>Date = ''03.02.24'', Description = ''SALARY'', Debit = [], Credit = ''200.00'',
            Balance = ''1200.00''\<rparr>]"
    by (simp add: ev)
  from h validate_idempotent [OF h] show ?thesis by simp
qed

lemma validate_step_cases:
  assumes "validate_step (acc, prev) t = Inr (acc', prev')"
  shows "(acc' = acc \<and> prev' = prev)
         \<or> (\<exists>r cur. validate_record prev t = Inr (Some (r, cur)) \<and> acc' = acc @ [r]
               \<and> prev' = Some cur)"
proof (cases "validate_record prev t")
  case (Inl e)
  then show ?thesis using assms by (cases e) (simp_all add: validate_step_def)
next
  case (Inr x)
  then show ?thesis using assms by (cases x) (auto simp: validate_step_def)
qed

lemma validate_step_tracks:
  assumes "validate_step st t = Inr st'" and "tracks_last st"
  shows "tracks_last st'"
proof -
  obtain acc prev where st: "st = (acc, prev)" by (cases st)
  obtain acc' prev' where st': "st' = (acc', prev')" by (cases st')
  from validate_step_cases [OF assms(1) [unfolded st st']] show ?thesis
  proof
    assume "acc' = acc \<and> prev' = prev"
    then show ?thesis using assms(2) st st' by simp
  next
    assume "\<exists>r cur. validate_record prev t = Inr (Some (r, cur)) \<and> acc' = acc @ [r]
              \<and> prev' = Some cur"
    then obtain r cur where k: "validate_record prev t = Inr (Some (r, cur))"
      "acc' = acc @ [r]" "prev' = Some cur" by blast
    from validate_record_kept [OF k(1)] have "Decimal (Balance r) = Inr cur"
      by (simp add: kept_from_def)
    then show ?thesis using k st' by (simp add: tracks_last_def)
  qed
qed

lemma validate_loop_tracks:
  "validate_loop st ts = Inr st' \<Longrightarrow> tracks_last st \<Longrightarrow> tracks_last st'"
proof (induction ts arbitrary: st)
  case Nil
  then show ?case by simp
next
  case (Cons t ts)
  from Cons.prems(1) obtain st1 where s: "validate_step st t = Inr st1"
    "validate_loop st1 ts = Inr st'" by (auto split: sum.splits)
  from Cons.IH [OF s(2) validate_step_tracks [OF s(1) Cons.prems(2)]] show ?case .
qed

text \<open>
  C2. In every iteration of the validator's loop, in the state reached after any input
  list: the previous balance is unknown while no record is kept and is the Balance of the
  most recent kept record afterwards. The iteration either drops the record and leaves the
  state as it is, or keeps it, appends the repaired record and makes its balance the
  previous balance (also for the first kept record). For a kept record with a known
  previous balance and with Debit and Credit both empty (after trimming): below the
  previous balance, Debit is the string of the absolute difference and Credit is empty;
  above it, Credit is that string and Debit is empty; at a balance equal to it, both stay
  empty. The difference is the subtraction of the decimal library in its default context.
\<close>

theorem validator_backfill:
  assumes "validate_loop ([], None) ts = Inr (acc, prev)"
    and "validate_step (acc, prev) t = Inr (acc', prev')"
  shows "tracks_last (acc, prev)
         \<and> ((acc' = acc \<and> prev' = prev)
            \<or> (\<exists>r cur. acc' = acc @ [r] \<and> prev' = Some cur
                  \<and> Decimal (strip (Balance t)) = Inr cur \<and> kept_from r t
                  \<and> (\<forall>p. prev = Some p \<and> strip (Debit t) = [] \<and> strip (Credit t) = [] \<longrightarrow>
                        (\<exists>d diff. dec_sub cur p = Inr d \<and> dec_abs d = Inr diff
                           \<and> (dec_cmp cur p < 0 \<longrightarrow> Debit r = decimal_str diff \<and> Credit r = [])
                           \<and> (dec_cmp cur p > 0 \<longrightarrow> Credit r = decimal_str diff \<and> Debit r = [])
                           \<and> (dec_cmp cur p = 0 \<longrightarrow> Debit r = [] \<and> Credit r = [])))))"
proof -
  have "tracks_last ([], None)" by (simp add: tracks_last_def)
  from validate_loop_tracks [OF assms(1) this] have tr: "tracks_last (acc, prev)" .
  from validate_step_cases [OF assms(2)] show ?thesis
  proof
    assume "acc' = acc \<and> prev' = prev"
    with tr show ?thesis by simp
  next
    assume "\<exists>r cur. validate_record prev t = Inr (Some (r, cur)) \<and> acc' = acc @ [r]
              \<and> prev' = Some cur"
    then obtain r cur where k: "validate_record prev t = Inr (Some (r, cur))"
      "acc' = acc @ [r]" "prev' = Some cur" by blast
    note f = validate_record_kept [OF k(1)]
    have "\<exists>d diff. dec_sub cur p = Inr d \<and> dec_abs d = Inr diff
            \<and> (dec_cmp cur p < 0 \<longrightarrow> Debit r = decimal_str diff \<and> Credit r = [])
            \<and> (dec_cmp cur p > 0 \<longrightarrow> Credit r = decimal_str diff \<and> Debit r = [])
            \<and> (dec_cmp cur p = 0 \<longrightarrow> Debit r = [] \<and> Credit r = [])"
      if "prev = Some p \<and> strip (Debit t) = [] \<and> strip (Credit t) = []" for p
    proof -
      from f that obtain d diff where "dec_sub cur p = Inr d \<and> dec_abs d = Inr diff
          \<and> (if strip (Debit t) = [] \<and> strip (Credit t) = []
             then \<not> is_nan cur \<and> \<not> is_nan p
                  \<and> (dec_cmp cur p < 0 \<longrightarrow> Debit r = decimal_str diff \<and> Credit r = [])
                  \<and> (dec_cmp cur p > 0 \<longrightarrow> Credit r = decimal_str diff \<and> Debit r = [])
                  \<and> (dec_cmp cur p = 0 \<longrightarrow> Debit r = [] \<and> Credit r = [])
             else Debit r = strip (Debit t) \<and> Credit r = strip (Credit t))" by blast
      with that show ?thesis by auto
    qed
    with tr k f show ?thesis by blast
  qed
qed

theorem validator_backfill_witness:
  "tracks_last ([\<lparr>Date = ''01.02.24'', Description = ''GROCERY STORE'', Debit = [], Credit = [],
                  Balance = ''1000.00''\<rparr>], Some (Finite False 100000 (- 2)))
   \<and> (\<exists>r cur. [\<lparr>Date = ''01.02.24'', Description = ''GROCERY STORE'', Debit = [], Credit = [],
                 Balance = ''1000.00''\<rparr>,
               \<lparr>Date = ''02.02.24'', Description = ''SALARY'', Debit = [], Credit = ''200.00'',
                 Balance = ''1200.00''\<rparr>]
              = [\<lparr>Date = ''01.02.24'', Description = ''GROCERY STORE'', Debit = [], Credit = [],
                  Balance = ''1000.00''\<rparr>] @ [r]
         \<and> Some (Finite False 120000 (- 2)) = Some cur
         \<and> (\<exists>d diff. dec_sub cur (Finite False 100000 (- 2)) = Inr d \<and> dec_abs d = Inr diff
               \<and> (dec_cmp cur (Finite False 100000 (- 2)) > 0
                    \<longrightarrow> Credit r = decimal_str diff \<and> Debit r = [])))"
proof -
  have h1: "validate_loop ([], None)
      [\<lparr>Date = ''01.02.24'', Description = ''GROCERY STORE'', Debit = [], Credit = [],
         Balance = ''1000.00''\<rparr>]
    = Inr ([\<lparr>Date = ''01.02.24'', Description = ''GROCERY STORE'', Debit = [], Credit = [],
              Balance = ''1000.00''\<rparr>], Some (Finite False 100000 (- 2)))"
    by (simp add: ev)
  have h2: "validate_step
      ([\<lparr>Date = ''01.02.24'', Description = ''GROCERY STORE'', Debit = [], Credit = [],
          Balance = ''1000.00''\<rparr>], Some (Finite False 100000 (- 2)))
      \<lparr>Date = ''02.02.24'', Description = ''SALARY'', Debit = [], Credit = [],
        Balance = ''1200.00''\<rparr>
    = Inr ([\<lparr>Date = ''01.02.24'', Description = ''GROCERY STORE'', Debit = [], Credit = [],
              Balance = ''1000.00''\<rparr>,
            \<lparr>Date = ''02.02.24'', Description = ''SALARY'', Debit = [], Credit = ''200.00'',
              Balance = ''1200.00''\<rparr>], Some (Finite False 120000 (- 2)))"
    by (simp add: ev)
  have e: "strip [] = []" by (simp add: strip_def)
  from validator_backfill [OF h1 h2] show ?thesis by (auto simp: e)
qed

section \<open>The invariant of Debit and Credit\<close>

lemma strip_Nil: "strip [] = []"
  by (simp add: strip_def)

lemma parse_line_cases:
  "parse_line st line = st
   \<or> (\<exists>td cur debit credit. extract_transaction_data line = Some td
         \<and> parse_line st line = (fst st @ [emitted td debit credit], Some cur)
         \<and> ((debit = [] \<and> credit = [])
            \<or> (\<exists>amt. (debit = [] \<and> credit = decimal_str amt)
                     \<or> (debit = decimal_str amt \<and> credit = []))))"
proof (cases "extract_transaction_data line")
  case None
  then show ?thesis by (simp add: parse_line_def process_line_def)
next
  case (Some td)
  from extract_fields_parse [OF Some] obtain cur where cur: "Decimal (balance td) = Inr cur"
    by blast
  show ?thesis
    unfolding parse_line_def process_line_eq [OF Some cur] using Some
    by (cases "snd st"; cases "amount td") auto
qed

lemma parse_line_inv:
  assumes "\<forall>r\<in>set (fst st). trimmed_one_sided r"
  shows "\<forall>r\<in>set (fst (parse_line st line)). trimmed_one_sided r"
  using parse_line_cases [of st line] assms
  by (auto simp: trimmed_one_sided_def one_sided_def emitted_def strip_Nil strip_decimal_str)

lemma parse_lines_inv:
  "\<forall>r\<in>set (fst st). trimmed_one_sided r
   \<Longrightarrow> \<forall>r\<in>set (fst (foldl parse_line st ls)). trimmed_one_sided r"
proof (induction ls arbitrary: st)
  case Nil
  then show ?case by simp
next
  case (Cons l ls)
  from Cons.IH [OF parse_line_inv [OF Cons.prems, of l]] show ?case by simp
qed

lemma parse_page_inv:
  "\<forall>r\<in>set (fst st). trimmed_one_sided r
   \<Longrightarrow> \<forall>r\<in>set (fst (parse_page st page)). trimmed_one_sided r"
  unfolding parse_page_def using parse_lines_inv by (auto split: option.splits)

lemma parse_pages_inv:
  "\<forall>r\<in>set (fst st). trimmed_one_sided r
   \<Longrightarrow> \<forall>r\<in>set (fst (foldl parse_page st pages)). trimmed_one_sided r"
proof (induction pages arbitrary: st)
  case Nil
  then show ?case by simp
next
  case (Cons p ps)
  from Cons.IH [OF parse_page_inv [OF Cons.prems, of p]] show ?case by simp
qed

lemma parse_pdf_inv:
  assumes "parse_pdf f = Inr ts" and "r \<in> set ts"
  shows "trimmed_one_sided r"
proof -
  from assms(1) obtain pages where "ts = fst (foldl parse_page ([], None) pages)"
    by (auto simp: parse_pdf_def split: pdf_file.splits if_splits)
  then show ?thesis using parse_pages_inv [of "([], None)" pages] assms(2) by simp
qed

lemma validate_record_one_sided:
  assumes "validate_record prev t = Inr (Some (r, cur))"
    and "strip (Debit t) = [] \<or> strip (Credit t) = []"
  shows "one_sided r"
proof (cases prev)
  case None
  then show ?thesis using validate_record_kept [OF assms(1)] assms(2)
    by (auto simp: one_sided_def)
next
  case (Some p)
  have "dec_cmp cur p < 0 \<or> dec_cmp cur p > 0 \<or> dec_cmp cur p = 0" by linarith
  then show ?thesis using validate_record_kept [OF assms(1)] assms(2) Some
    by (auto simp: one_sided_def split: if_splits)
qed

lemma validated_from_one_sided:
  "validated_from prev ts = Inr out
   \<Longrightarrow> \<forall>t\<in>set ts. strip (Debit t) = [] \<or> strip (Credit t) = []
   \<Longrightarrow> \<forall>r\<in>set out. one_sided r"
proof (induction ts arbitrary: prev out)
  case Nil
  then show ?case by simp
next
  case (Cons t ts)
  have rest: "\<forall>t\<in>set ts. strip (Debit t) = [] \<or> strip (Credit t) = []"
    using Cons.prems(2) by simp
  show ?case
  proof (cases "validate_record prev t")
    case (Inl e)
    then show ?thesis using Cons.prems(1) Cons.IH [OF _ rest] by (cases e) simp_all
  next
    case (Inr x)
    show ?thesis
    proof (cases x)
      case None
      then show ?thesis using Inr Cons.prems(1) Cons.IH [OF _ rest] by simp
    next
      case (Some rc)
      obtain r cur where rc: "rc = (r, cur)" by (cases rc)
      from Cons.prems(1) Inr Some rc obtain out' where o:
        "validated_from (Some cur) ts = Inr out'" "out = r # out'" by (auto split: sum.splits)
      have "one_sided r"
        using validate_record_one_sided [of prev t r cur] Inr Some rc Cons.prems(2) by simp
      with Cons.IH [OF o(1) rest] o(2) show ?thesis by simp
    qed
  qed
qed

text \<open>
  C5. At most one of Debit and Credit is a non-empty string in every record that the
  parser emits and in every record of the validator's output: the parser establishes this,
  and the validator keeps it for every input list whose records have it.
\<close>

theorem debit_credit_invariant:
  "(parse_pdf f = Inr ts \<longrightarrow>
      (\<forall>r\<in>set ts. one_sided r)
      \<and> (\<forall>out. validate_transactions ts = Inr out \<longrightarrow> (\<forall>r\<in>set out. one_sided r)))
   \<and> ((\<forall>t\<in>set ts'. one_sided t) \<and> validate_transactions ts' = Inr out'
        \<longrightarrow> (\<forall>r\<in>set out'. one_sided r))"
proof -
  have keep: "\<forall>r\<in>set out. one_sided r"
    if "\<forall>t\<in>set xs. one_sided t" "validate_transactions xs = Inr out" for xs out
  proof -
    from that(1) have "\<forall>t\<in>set xs. strip (Debit t) = [] \<or> strip (Credit t) = []"
      by (auto simp: one_sided_def strip_Nil)
    with that(2) show ?thesis
      using validated_from_one_sided [of None xs out] by (simp add: validate_transactions_list)
  qed
  have est: "\<forall>r\<in>set ts. one_sided r" if "parse_pdf f = Inr ts"
    using parse_pdf_inv [OF that] by (auto simp: trimmed_one_sided_def)
  from keep est show ?thesis by blast
qed

theorem debit_credit_invariant_witness:
  "one_sided \<lparr>Date = ''01.02.24'', Description = ''A'', Debit = [], Credit = [],
               Balance = ''10''\<rparr>
   \<and> one_sided \<lparr>Date = ''03.02.24'', Description = ''C'', Debit = [], Credit = ''5'',
                 Balance = ''11''\<rparr>
   \<and> one_sided \<lparr>Date = ''04.02.24'', Description = ''D'', Debit = [], Credit = [],
                 Balance = ''7''\<rparr>
   \<and> one_sided \<lparr>Date = ''04.02.24'', Description = ''D'', Debit = ''4'', Credit = [],
                 Balance = ''7''\<rparr>"
proof -
  have h1: "parse_pdf (Pdf [Some (''01.02.24 A 5 10'' @ [CHR 0x0A] @ ''03.02.24 C 5 11''),
                            Some ''04.02.24 D 7''])
    = Inr [\<lparr>Date = ''01.02.24'', Description = ''A'', Debit = [], Credit = [],
             Balance = ''10''\<rparr>,
           \<lparr>Date = ''03.02.24'', Description = ''C'', Debit = [], Credit = ''5'',
             Balance = ''11''\<rparr>,
           \<lparr>Date = ''04.02.24'', Description = ''D'', Debit = [], Credit = [],
             Balance = ''7''\<rparr>]"
    by (simp add: ev)
  have h2: "validate_transactions
       [\<lparr>Date = ''01.02.24'', Description = ''A'', Debit = [], Credit = [],
          Balance = ''10''\<rparr>,
        \<lparr>Date = ''03.02.24'', Description = ''C'', Debit = [], Credit = ''5'',
          Balance = ''11''\<rparr>,
        \<lparr>Date = ''04.02.24'', Description = ''D'', Debit = [], Credit = [],
          Balance = ''7''\<rparr>]
    = Inr [\<lparr>Date = ''01.02.24'', Description = ''A'', Debit = [], Credit = [],
             Balance = ''10''\<rparr>,
           \<lparr>Date = ''03.02.24'', Description = ''C'', Debit = [], Credit = ''5'',
             Balance = ''11''\<rparr>,
           \<lparr>Date = ''04.02.24'', Description = ''D'', Debit = ''4'', Credit = [],
             Balance = ''7''\<rparr>]"
    by (simp add: ev)
  from debit_credit_invariant [of "Pdf [Some (''01.02.24 A 5 10'' @ [CHR 0x0A] @ ''03.02.24 C 5 11''),
      Some ''04.02.24 D 7'']" _ "[]" "[]"] h1 h2
  have "(\<forall>r\<in>set [\<lparr>Date = ''01.02.24'', Description = ''A'', Debit = [], Credit = [],
                Balance = ''10''\<rparr>,
              \<lparr>Date = ''03.02.24'', Description = ''C'', Debit = [], Credit = ''5'',
                Balance = ''11''\<rparr>,
              \<lparr>Date = ''04.02.24'', Description = ''D'', Debit = [], Credit = [],
                Balance = ''7''\<rparr>]. one_sided r)
   \<and> (\<forall>r\<in>set [\<lparr>Date = ''01.02.24'', Description = ''A'', Debit = [], Credit = [],
                  Balance = ''10''\<rparr>,
                \<lparr>Date = ''03.02.24'', Description = ''C'', Debit = [], Credit = ''5'',
                  Balance = ''11''\<rparr>,
                \<lparr>Date = ''04.02.24'', Description = ''D'', Debit = ''4'', Credit = [],
                  Balance = ''7''\<rparr>]. one_sided r)"
    by blast
  then show ?thesis by simp
qed

text \<open>
  C8, as stated, fails: the validator writes the trimmed Debit and Credit, so a populated
  field with white space around it is rewritten.
\<close>

theorem populated_fields_counterexample:
  "validate_transactions
     [\<lparr>Date = ''01.02.24'', Description = ''A'', Debit = [], Credit = [], Balance = ''1045.00''\<rparr>,
      \<lparr>Date = ''02.02.24'', Description = ''B'', Debit = '' 45.00'', Credit = [],
        Balance = ''1000.00''\<rparr>]
   = Inr [\<lparr>Date = ''01.02.24'', Description = ''A'', Debit = [], Credit = [],
            Balance = ''1045.00''\<rparr>,
          \<lparr>Date = ''02.02.24'', Description = ''B'', Debit = ''45.00'', Credit = [],
            Balance = ''1000.00''\<rparr>]
   \<and> ''45.00'' \<noteq> '' 45.00''"
  by (simp add: ev)

text \<open>
  C8, amended. For every kept record where the previous balance is known and Debit or
  Credit is non-blank, in particular when exactly one is, the Debit and Credit of the
  output are those of the input with the surrounding white space trimmed, whatever the
  balances are; they are the fields of the input as they stand when the record was emitted
  by the parser.
\<close>

theorem populated_fields_kept:
  assumes "validate_step (acc, Some p) t = Inr (acc', prev')" and "acc' \<noteq> acc"
    and "strip (Debit t) \<noteq> [] \<or> strip (Credit t) \<noteq> []"
  shows "\<exists>r. acc' = acc @ [r] \<and> Debit r = strip (Debit t) \<and> Credit r = strip (Credit t)
           \<and> (\<forall>f ts. parse_pdf f = Inr ts \<and> t \<in> set ts
                 \<longrightarrow> Debit r = Debit t \<and> Credit r = Credit t)"
proof -
  from validate_step_cases [OF assms(1)] assms(2) obtain r cur where
    k: "validate_record (Some p) t = Inr (Some (r, cur))" "acc' = acc @ [r]" by blast
  from validate_record_kept [OF k(1)] assms(3)
  have f: "Debit r = strip (Debit t)" "Credit r = strip (Credit t)" by auto
  have "Debit r = Debit t \<and> Credit r = Credit t" if "parse_pdf f = Inr ts \<and> t \<in> set ts" for f ts
    using parse_pdf_inv [of f ts t] that f by (simp add: trimmed_one_sided_def)
  with k(2) f show ?thesis by blast
qed

theorem populated_fields_kept_witness:
  "\<exists>r. [\<lparr>Date = ''01.02.24'', Description = ''A'', Debit = [], Credit = [], Balance = ''10''\<rparr>,
         \<lparr>Date = ''03.02.24'', Description = ''C'', Debit = [], Credit = ''5'',
           Balance = ''6''\<rparr>]
        = [\<lparr>Date = ''01.02.24'', Description = ''A'', Debit = [], Credit = [],
            Balance = ''10''\<rparr>] @ [r]
      \<and> Debit r = strip [] \<and> Credit r = strip ''5''"
proof -
  have h: "validate_step
      ([\<lparr>Date = ''01.02.24'', Description = ''A'', Debit = [], Credit = [], Balance = ''10''\<rparr>],
       Some (Finite False 10 0))
      \<lparr>Date = ''03.02.24'', Description = ''C'', Debit = [], Credit = ''5'', Balance = ''6''\<rparr>
    = Inr ([\<lparr>Date = ''01.02.24'', Description = ''A'', Debit = [], Credit = [],
              Balance = ''10''\<rparr>,
            \<lparr>Date = ''03.02.24'', Description = ''C'', Debit = [], Credit = ''5'',
              Balance = ''6''\<rparr>], Some (Finite False 6 0))"
    by (simp add: ev)
  have n: "strip (Debit \<lparr>Date = ''03.02.24'', Description = ''C'', Debit = [], Credit = ''5'',
              Balance = ''6''\<rparr>) \<noteq> []
         \<or> strip (Credit \<lparr>Date = ''03.02.24'', Description = ''C'', Debit = [], Credit = ''5'',
              Balance = ''6''\<rparr>) \<noteq> []"
    by (simp add: ev)
  from populated_fields_kept [OF h _ n] show ?thesis by auto
qed

section \<open>Order\<close>

lemma parse_line_from_line:
  "parse_line st line = st
   \<or> (\<exists>r prev'. parse_line st line = (fst st @ [r], prev') \<and> from_line r line)"
  using parse_line_cases [of st line]
  by (auto simp: from_line_def emitted_def)

lemma parse_lines_order:
  "\<exists>new ks. fst (foldl parse_line st ls) = fst st @ new \<and> subseq ks ls
              \<and> list_all2 from_line new ks"
proof (induction ls arbitrary: st)
  case Nil
  show ?case by simp
next
  case (Cons l ls)
  from Cons.IH [of "parse_line st l"] obtain new ks where
    n: "fst (foldl parse_line (parse_line st l) ls) = fst (parse_line st l) @ new"
    "subseq ks ls" "list_all2 from_line new ks" by blast
  from parse_line_from_line [of st l] show ?case
  proof
    assume "parse_line st l = st"
    with n show ?thesis by (intro exI [of _ new] exI [of _ ks]) (simp add: list_emb_Cons)
  next
    assume "\<exists>r prev'. parse_line st l = (fst st @ [r], prev') \<and> from_line r l"
    then obtain r prev' where r: "parse_line st l = (fst st @ [r], prev')" "from_line r l"
      by blast
    with n show ?thesis by (intro exI [of _ "r # new"] exI [of _ "l # ks"]) simp
  qed
qed

lemma parse_page_lines: "parse_page st page = foldl parse_line st (page_lines page)"
  by (simp add: parse_page_def page_lines_def split: option.splits)

lemma parse_pages_lines: "foldl parse_page st pages = foldl parse_line st (all_lines pages)"
  by (induction pages arbitrary: st) (simp_all add: all_lines_def parse_page_lines)

lemma validated_from_order:
  "validated_from prev ts = Inr out \<Longrightarrow> \<exists>ks. subseq ks ts \<and> list_all2 kept_from out ks"
proof (induction ts arbitrary: prev out)
  case Nil
  then show ?case by simp
next
  case (Cons t ts)
  show ?case
  proof (cases "validate_record prev t")
    case (Inl e)
    with Cons.prems have "validated_from prev ts = Inr out" by (cases e) simp_all
    from Cons.IH [OF this] show ?thesis by (meson list_emb_Cons)
  next
    case (Inr x)
    show ?thesis
    proof (cases x)
      case None
      with Inr Cons.prems have "validated_from prev ts = Inr out" by simp
      from Cons.IH [OF this] show ?thesis by (meson list_emb_Cons)
    next
      case (Some rc)
      obtain r cur where rc: "rc = (r, cur)" by (cases rc)
      from Cons.prems Inr Some rc obtain out' where o:
        "validated_from (Some cur) ts = Inr out'" "out = r # out'" by (auto split: sum.splits)
      from Cons.IH [OF o(1)] obtain ks where ks: "subseq ks ts" "list_all2 kept_from out' ks"
        by blast
      have "kept_from r t" using validate_record_kept [of prev t r cur] Inr Some rc by simp
      with ks o(2) show ?thesis by (intro exI [of _ "t # ks"]) simp
    qed
  qed
qed

text \<open>
  C7. Both stages preserve order. The records that the parser emits come, in their order,
  from a subsequence of the lines of the document in document order (page after page, line
  after line), each record carrying the fields of its line; the output of the validator
  comes, in its order, from a subsequence of its input, each output record carrying the
  trimmed fields of its input record.
\<close>

theorem order_preserved:
  "(parse_pdf (Pdf pages) = Inr ts \<longrightarrow>
      (\<exists>ls. subseq ls (all_lines pages) \<and> list_all2 from_line ts ls))
   \<and> (validate_transactions ts' = Inr out \<longrightarrow>
      (\<exists>ks. subseq ks ts' \<and> list_all2 kept_from out ks))"
proof -
  have "\<exists>ls. subseq ls (all_lines pages) \<and> list_all2 from_line ts ls"
    if "parse_pdf (Pdf pages) = Inr ts"
  proof -
    from that have "ts = fst (foldl parse_line ([], None) (all_lines pages))"
      by (simp add: parse_pdf_def parse_pages_lines split: if_splits)
    then show ?thesis using parse_lines_order [of "([], None)" "all_lines pages"] by auto
  qed
  moreover have "\<exists>ks. subseq ks ts' \<and> list_all2 kept_from out ks"
    if "validate_transactions ts' = Inr out"
    using that validated_from_order [of None ts' out] by (simp add: validate_transactions_list)
  ultimately show ?thesis by blast
qed

theorem order_preserved_witness:
  "(\<exists>ls. subseq ls (all_lines [Some (''01.02.24 A 5 10'' @ [CHR 0x0A] @ ''junk''
                                       @ [CHR 0x0A] @ ''03.02.24 C 5 11''),
                                 None, Some ''04.02.24 D 7''])
      \<and> list_all2 from_line
          [\<lparr>Date = ''01.02.24'', Description = ''A'', Debit = [], Credit = [],
             Balance = ''10''\<rparr>,
           \<lparr>Date = ''03.02.24'', Description = ''C'', Debit = [], Credit = ''5'',
             Balance = ''11''\<rparr>,
           \<lparr>Date = ''04.02.24'', Description = ''D'', Debit = [], Credit = [],
             Balance = ''7''\<rparr>] ls)
   \<and> (\<exists>ks. subseq ks
          [\<lparr>Date = ''01.02.24'', Description = ''A'', Debit = [], Credit = [],
             Balance = ''10''\<rparr>,
           \<lparr>Date = ''02.02.24'', Description = [], Debit = [], Credit = [],
             Balance = ''12''\<rparr>,
           \<lparr>Date = ''04.02.24'', Description = ''D'', Debit = [], Credit = [],
             Balance = ''7''\<rparr>]
      \<and> list_all2 kept_from
          [\<lparr>Date = ''01.02.24'', Description = ''A'', Debit = [], Credit = [],
             Balance = ''10''\<rparr>,
           \<lparr>Date = ''04.02.24'', Description = ''D'', Debit = ''3'', Credit = [],
             Balance = ''7''\<rparr>] ks)"
proof -
  have h1: "parse_pdf (Pdf [Some (''01.02.24 A 5 10'' @ [CHR 0x0A] @ ''junk''
                                    @ [CHR 0x0A] @ ''03.02.24 C 5 11''),
                            None, Some ''04.02.24 D 7''])
    = Inr [\<lparr>Date = ''01.02.24'', Description = ''A'', Debit = [], Credit = [],
             Balance = ''10''\<rparr>,
           \<lparr>Date = ''03.02.24'', Description = ''C'', Debit = [], Credit = ''5'',
             Balance = ''11''\<rparr>,
           \<lparr>Date = ''04.02.24'', Description = ''D'', Debit = [], Credit = [],
             Balance = ''7''\<rparr>]"
    by (simp add: ev)
  have h2: "validate_transactions
          [\<lparr>Date = ''01.02.24'', Description = ''A'', Debit = [], Credit = [],
             Balance = ''10''\<rparr>,
           \<lparr>Date = ''02.02.24'', Description = [], Debit = [], Credit = [],
             Balance = ''12''\<rparr>,
           \<lparr>Date = ''04.02.24'', Description = ''D'', Debit = [], Credit = [],
             Balance = ''7''\<rparr>]
    = Inr [\<lparr>Date = ''01.02.24'', Description = ''A'', Debit = [], Credit = [],
             Balance = ''10''\<rparr>,
           \<lparr>Date = ''04.02.24'', Description = ''D'', Debit = ''3'', Credit = [],
             Balance = ''7''\<rparr>]"
    by (simp add: ev)
  from order_preserved [of "[Some (''01.02.24 A 5 10'' @ [CHR 0x0A] @ ''junk''
        @ [CHR 0x0A] @ ''03.02.24 C 5 11''), None, Some ''04.02.24 D 7'']"] h1 h2
  show ?thesis by blast
qed

end
